theory Spec2Isabelle
  imports Main
begin

section \<open>The Python runtime the calculators stand on\<close>

text \<open>
  The calculators of \<^verbatim>\<open>src/backend/ps.py\<close> (\<^verbatim>\<open>calculate_expiry\<close>,
  \<^verbatim>\<open>calculate_design_patent_expiry\<close>, \<^verbatim>\<open>calculate_maintenance_fees\<close>) are written on
  top of \<^verbatim>\<open>datetime\<close>, \<^verbatim>\<open>calendar\<close> and \<^verbatim>\<open>dateutil.relativedelta\<close>. This section
  models the part of those libraries the calculators call. Python integers are unbounded
  (\<^typ>\<open>int\<close>); every exception is a value \<open>Inl e\<close> of the result type.
  Strings are lists of 8-bit characters, read as the code points 0..255; among those the
  only decimal digits (\<^verbatim>\<open>\d\<close>) are \<^verbatim>\<open>0\<close>..\<^verbatim>\<open>9\<close>.
\<close>

datatype error = ValueError | OverflowError

subsection \<open>Proleptic Gregorian calendar (\<^verbatim>\<open>datetime\<close>, \<^verbatim>\<open>calendar\<close>)\<close>

definition MINYEAR :: int where "MINYEAR = 1"
definition MAXYEAR :: int where "MAXYEAR = 9999"
definition MAXORDINAL :: int where "MAXORDINAL = 3652059"

definition DAYS_IN_MONTH :: "int list" where
  "DAYS_IN_MONTH = [-1, 31, 28, 31, 30, 31, 30, 31, 31, 30, 31, 30, 31]"

definition DAYS_BEFORE_MONTH :: "int list" where
  "DAYS_BEFORE_MONTH = [-1, 0, 31, 59, 90, 120, 151, 181, 212, 243, 273, 304, 334]"

text \<open>\<^verbatim>\<open>calendar.isleap\<close> and \<^verbatim>\<open>datetime._is_leap\<close>.\<close>

definition isleap :: "int \<Rightarrow> bool" where
  "isleap y \<longleftrightarrow> y mod 4 = 0 \<and> (y mod 100 \<noteq> 0 \<or> y mod 400 = 0)"

text \<open>The \<^verbatim>\<open>is_leap_year\<close> of the source file itself (line 166).\<close>

definition is_leap_year :: "int \<Rightarrow> bool" where
  "is_leap_year y \<longleftrightarrow> (y mod 4 = 0 \<and> y mod 100 \<noteq> 0) \<or> y mod 400 = 0"

definition days_before_year :: "int \<Rightarrow> int" where
  "days_before_year y = (let z = y - 1 in z * 365 + z div 4 - z div 100 + z div 400)"

text \<open>\<^verbatim>\<open>_days_in_month\<close>, called with \<open>1 \<le> m \<le> 12\<close> only.\<close>

definition days_in_month :: "int \<Rightarrow> int \<Rightarrow> int" where
  "days_in_month y m = (if m = 2 \<and> isleap y then 29 else DAYS_IN_MONTH ! nat m)"

definition days_before_month :: "int \<Rightarrow> int \<Rightarrow> int" where
  "days_before_month y m = DAYS_BEFORE_MONTH ! nat m + (if m > 2 \<and> isleap y then 1 else 0)"

definition ymd2ord :: "int \<Rightarrow> int \<Rightarrow> int \<Rightarrow> int" where
  "ymd2ord y m d = days_before_year y + days_before_month y m + d"

text \<open>\<^verbatim>\<open>_ord2ymd\<close>: the 400/100/4/1-year cycle decomposition of an ordinal.\<close>

definition ord2ymd :: "int \<Rightarrow> int \<times> int \<times> int" where
  "ord2ymd n0 =
    (let n = n0 - 1;
         n400 = n div 146097; n = n mod 146097;
         n100 = n div 36524; n = n mod 36524;
         n4 = n div 1461; n = n mod 1461;
         n1 = n div 365; n = n mod 365;
         y = n400 * 400 + 1 + n100 * 100 + n4 * 4 + n1
     in if n1 = 4 \<or> n100 = 4 then (y - 1, 12, 31)
        else
          let leapyear = (n1 = 3 \<and> (n4 \<noteq> 24 \<or> n100 = 3));
              m = (n + 50) div 32;
              preceding = DAYS_BEFORE_MONTH ! nat m + (if m > 2 \<and> leapyear then 1 else 0)
          in if preceding > n
             then (y, m - 1,
                   n - (preceding - (DAYS_IN_MONTH ! nat (m - 1)
                                      + (if m - 1 = 2 \<and> leapyear then 1 else 0))) + 1)
             else (y, m, n - preceding + 1))"

text \<open>
  A naive \<^verbatim>\<open>datetime\<close>: the seven fields Python compares. \<^verbatim>\<open>strptime\<close> with a date-only
  format leaves the time at midnight; \<^verbatim>\<open>datetime.now()\<close> fills all of them.
\<close>

record datetime =
  year :: int
  month :: int
  day :: int
  hour :: int
  minute :: int
  second :: int
  microsecond :: int

text \<open>\<^verbatim>\<open>_check_date_fields\<close>: the range every constructed date is held to.\<close>

definition check_date_fields :: "int \<Rightarrow> int \<Rightarrow> int \<Rightarrow> bool" where
  "check_date_fields y m d \<longleftrightarrow>
     MINYEAR \<le> y \<and> y \<le> MAXYEAR \<and> 1 \<le> m \<and> m \<le> 12 \<and> 1 \<le> d \<and> d \<le> days_in_month y m"

definition midnight :: "int \<Rightarrow> int \<Rightarrow> int \<Rightarrow> datetime" where
  "midnight y m d =
     \<lparr>year = y, month = m, day = d, hour = 0, minute = 0, second = 0, microsecond = 0\<rparr>"

text \<open>
  \<^verbatim>\<open>dt.replace(year=y, month=m, day=d)\<close>. The arguments are first converted to C
  integers of 32 bits, and one that does not fit raises \<^verbatim>\<open>OverflowError\<close>; the new value
  is then checked like any other.
\<close>

definition c_int :: "int \<Rightarrow> bool" where
  "c_int i \<longleftrightarrow> - 2147483648 \<le> i \<and> i \<le> 2147483647"

definition replace_ymd :: "datetime \<Rightarrow> int \<Rightarrow> int \<Rightarrow> int \<Rightarrow> error + datetime" where
  "replace_ymd dt y m d =
     (if \<not> (c_int y \<and> c_int m \<and> c_int d) then Inl OverflowError
      else if check_date_fields y m d then Inr (dt\<lparr>year := y, month := m, day := d\<rparr>)
      else Inl ValueError)"

definition toordinal :: "datetime \<Rightarrow> int" where
  "toordinal dt = ymd2ord (year dt) (month dt) (day dt)"

text \<open>
  \<^verbatim>\<open>dt + timedelta(days=n)\<close>. The \<^verbatim>\<open>timedelta\<close> constructor refuses more than
  999999999 days, and the sum must be an ordinal of the years 1..9999; both failures are
  \<^verbatim>\<open>OverflowError\<close>. The time of day is carried over.
\<close>

definition add_timedelta_days :: "datetime \<Rightarrow> int \<Rightarrow> error + datetime" where
  "add_timedelta_days dt n =
     (if \<bar>n\<bar> > 999999999 then Inl OverflowError
      else let days = toordinal dt + n
           in if 0 < days \<and> days \<le> MAXORDINAL
              then (case ord2ymd days of (y, m, d) \<Rightarrow> Inr (dt\<lparr>year := y, month := m, day := d\<rparr>))
              else Inl OverflowError)"

text \<open>
  The second component of \<^verbatim>\<open>calendar.monthrange(year, month)\<close>, the number of days of the
  month. A month outside 1..12 raises \<^verbatim>\<open>IllegalMonthError\<close>, a \<^verbatim>\<open>ValueError\<close>; the year is
  not restricted.
\<close>

definition monthrange_ndays :: "int \<Rightarrow> int \<Rightarrow> error + int" where
  "monthrange_ndays y m =
     (if \<not> (1 \<le> m \<and> m \<le> 12) then Inl ValueError
      else Inr (DAYS_IN_MONTH ! nat m + (if m = 2 \<and> isleap y then 1 else 0)))"

text \<open>
  \<^verbatim>\<open>dt + relativedelta(years=k)\<close>: the year is shifted, the day is cut to the length of the
  month in the new year, the fields are replaced, and the (zero) day offset of the
  \<^verbatim>\<open>relativedelta\<close> is added as a \<^verbatim>\<open>timedelta\<close>.
\<close>

definition add_relativedelta_years :: "datetime \<Rightarrow> int \<Rightarrow> error + datetime" where
  "add_relativedelta_years other k =
     (let y = year other + k; m = month other
      in case monthrange_ndays y m of
           Inl e \<Rightarrow> Inl e
         | Inr ndays \<Rightarrow>
             (case replace_ymd other y m (min ndays (day other)) of
                Inl e \<Rightarrow> Inl e
              | Inr repl \<Rightarrow> add_timedelta_days repl 0))"

text \<open>Comparison of naive datetimes: lexicographic on the seven fields.\<close>

definition dt_fields :: "datetime \<Rightarrow> int list" where
  "dt_fields dt = [year dt, month dt, day dt, hour dt, minute dt, second dt, microsecond dt]"

fun lex_less :: "int list \<Rightarrow> int list \<Rightarrow> bool" where
  "lex_less (x # xs) (y # ys) = (x < y \<or> (x = y \<and> lex_less xs ys))"
| "lex_less _ _ = False"

definition dt_less :: "datetime \<Rightarrow> datetime \<Rightarrow> bool" where
  "dt_less a b = lex_less (dt_fields a) (dt_fields b)"

definition dt_ge :: "datetime \<Rightarrow> datetime \<Rightarrow> bool" where
  "dt_ge a b = (\<not> dt_less a b)"

subsection \<open>\<^verbatim>\<open>str\<close> of an integer and \<^verbatim>\<open>strftime("%Y-%m-%d")\<close>\<close>

definition digit_char :: "nat \<Rightarrow> char" where
  "digit_char n = char_of (48 + n)"

fun str_nat :: "nat \<Rightarrow> string" where
  "str_nat n = (if n < 10 then [digit_char n] else str_nat (n div 10) @ [digit_char (n mod 10)])"

declare str_nat.simps [simp del]

definition str_int :: "int \<Rightarrow> string" where
  "str_int i = (if i < 0 then CHR ''-'' # str_nat (nat (- i)) else str_nat (nat i))"

text \<open>
  Formatting an integer, as \<^verbatim>\<open>str(i)\<close> and \<^verbatim>\<open>f"{i}"\<close> do it. The interpreter refuses
  to convert an integer of more than \<^verbatim>\<open>sys.int_max_str_digits\<close> = 4300 decimal digits
  and raises \<^verbatim>\<open>ValueError\<close>.
\<close>

definition MAX_STR_DIGITS :: nat where "MAX_STR_DIGITS = 4300"

definition format_int :: "int \<Rightarrow> error + string" where
  "format_int i = (if 10 ^ MAX_STR_DIGITS \<le> \<bar>i\<bar> then Inl ValueError else Inr (str_int i))"

definition zero_pad :: "nat \<Rightarrow> string \<Rightarrow> string" where
  "zero_pad w s = replicate (w - length s) CHR ''0'' @ s"

text \<open>
  \<^verbatim>\<open>dt.strftime("%Y-%m-%d")\<close> as CPython on the GNU C library prints it: \<^verbatim>\<open>%m\<close> and
  \<^verbatim>\<open>%d\<close> are zero-padded to two digits, and \<^verbatim>\<open>%Y\<close> is the year with no padding, so
  a year below 1000 has fewer than four digits (\<^verbatim>\<open>920-01-01\<close>) and is not a string that
  \<^verbatim>\<open>strptime\<close> reads back.
\<close>

definition strftime :: "datetime \<Rightarrow> string" where
  "strftime dt =
     str_int (year dt) @ ''-'' @ zero_pad 2 (str_int (month dt)) @ ''-''
       @ zero_pad 2 (str_int (day dt))"

subsection \<open>\<^verbatim>\<open>datetime.strptime(s, "%Y-%m-%d")\<close>\<close>

text \<open>
  \<^verbatim>\<open>strptime\<close> turns the format into the regular expression
  \<^verbatim>\<open>(?P<Y>\d\d\d\d)-(?P<m>1[0-2]|0[1-9]|[1-9])-(?P<d>3[0-1]|[1-2]\d|0[1-9]|[1-9]| [1-9])\<close>,
  matches it at the start of the string, and refuses the string when anything is left
  over. Each matcher below returns, in the order the regex engine tries them, the
  possible (value, rest) pairs; the first complete match wins.
\<close>

definition is_digit :: "char \<Rightarrow> bool" where
  "is_digit c \<longleftrightarrow> 48 \<le> (of_char c :: nat) \<and> (of_char c :: nat) \<le> 57"

definition digit_val :: "char \<Rightarrow> int" where
  "digit_val c = int (of_char c) - 48"

definition in_range :: "char \<Rightarrow> char \<Rightarrow> char \<Rightarrow> bool" where
  "in_range lo hi c \<longleftrightarrow> (of_char lo :: nat) \<le> of_char c \<and> (of_char c :: nat) \<le> of_char hi"

fun match_Y :: "string \<Rightarrow> (int \<times> string) list" where
  "match_Y (a # b # c # d # rest) =
     (if is_digit a \<and> is_digit b \<and> is_digit c \<and> is_digit d
      then [(1000 * digit_val a + 100 * digit_val b + 10 * digit_val c + digit_val d, rest)]
      else [])"
| "match_Y _ = []"

fun match_dash :: "string \<Rightarrow> string list" where
  "match_dash (c # rest) = (if c = CHR ''-'' then [rest] else [])"
| "match_dash [] = []"

text \<open>Two characters \<open>a b\<close> with \<open>a\<close> in one class and \<open>b\<close> in another.\<close>

fun match2 :: "(char \<Rightarrow> bool) \<Rightarrow> (char \<Rightarrow> bool) \<Rightarrow> string \<Rightarrow> (int \<times> string) list" where
  "match2 p q (a # b # rest) =
     (if p a \<and> q b then [(10 * digit_val a + digit_val b, rest)] else [])"
| "match2 p q _ = []"

fun match1 :: "(char \<Rightarrow> bool) \<Rightarrow> string \<Rightarrow> (int \<times> string) list" where
  "match1 p (a # rest) = (if p a then [(digit_val a, rest)] else [])"
| "match1 p [] = []"

text \<open>The alternative \<^verbatim>\<open> [1-9]\<close> of \<^verbatim>\<open>%d\<close>: a space, then one digit.\<close>

fun match_sp1 :: "string \<Rightarrow> (int \<times> string) list" where
  "match_sp1 (a # b # rest) =
     (if a = CHR '' '' \<and> in_range CHR ''1'' CHR ''9'' b then [(digit_val b, rest)] else [])"
| "match_sp1 _ = []"

definition match_m :: "string \<Rightarrow> (int \<times> string) list" where
  "match_m s =
     match2 (\<lambda>c. c = CHR ''1'') (in_range CHR ''0'' CHR ''2'') s
     @ match2 (\<lambda>c. c = CHR ''0'') (in_range CHR ''1'' CHR ''9'') s
     @ match1 (in_range CHR ''1'' CHR ''9'') s"

definition match_d :: "string \<Rightarrow> (int \<times> string) list" where
  "match_d s =
     match2 (\<lambda>c. c = CHR ''3'') (in_range CHR ''0'' CHR ''1'') s
     @ match2 (in_range CHR ''1'' CHR ''2'') is_digit s
     @ match2 (\<lambda>c. c = CHR ''0'') (in_range CHR ''1'' CHR ''9'') s
     @ match1 (in_range CHR ''1'' CHR ''9'') s
     @ match_sp1 s"

definition regex_match :: "string \<Rightarrow> ((int \<times> int \<times> int) \<times> string) list" where
  "regex_match s =
     concat (map (\<lambda>(y, r1).
       concat (map (\<lambda>r2.
         concat (map (\<lambda>(m, r3).
           concat (map (\<lambda>r4.
             map (\<lambda>(d, r5). ((y, m, d), r5)) (match_d r4))
           (match_dash r3)))
         (match_m r2)))
       (match_dash r1)))
     (match_Y s))"

definition strptime :: "string \<Rightarrow> error + datetime" where
  "strptime s =
     (case regex_match s of
        [] \<Rightarrow> Inl ValueError
      | ((y, m, d), rest) # _ \<Rightarrow>
          if rest \<noteq> [] then Inl ValueError
          else if check_date_fields y m d then Inr (midnight y m d)
          else Inl ValueError)"

section \<open>The calculators of \<^verbatim>\<open>src/backend/ps.py\<close>\<close>

text \<open>
  The dictionary the two expiry calculators return. The evaluation instant
  \<^verbatim>\<open>datetime.now()\<close> is an explicit argument \<open>now\<close> of the model.
\<close>

record expiration =
  expiry :: string
  reason :: string
  is_active :: bool
  baseline_expiry :: string
  pta_days :: int
  pte_days :: int
  calculated_expiry :: string

text \<open>
  \<^verbatim>\<open>calculate_expiry(filing_str, pta_days, pte_days, td_date_str)\<close>. The day counts are
  Python integers, for which \<^verbatim>\<open>int(pta_days or 0)\<close> and \<^verbatim>\<open>pta_days or 0\<close> are the value
  and the truth test is \<open>\<noteq> 0\<close>. The reason is built after the adjusted date and before
  the terminal-disclaimer string is read, and formatting a day count can fail. The
  optional \<^verbatim>\<open>td_date_str\<close> is tested for truth: \<^verbatim>\<open>None\<close> and the empty string both skip
  the terminal-disclaimer branch.
\<close>

definition calculate_expiry ::
  "string \<Rightarrow> int \<Rightarrow> int \<Rightarrow> string option \<Rightarrow> datetime \<Rightarrow> error + expiration" where
  "calculate_expiry filing_str pta pte td_date_str now =
     (case strptime filing_str of
        Inl e \<Rightarrow> Inl e
      | Inr filing_date \<Rightarrow>
     (case add_relativedelta_years filing_date 20 of
        Inl e \<Rightarrow> Inl e
      | Inr baseline \<Rightarrow>
     (let total_adjustment = pta + pte
      in case add_timedelta_days baseline total_adjustment of
        Inl e \<Rightarrow> Inl e
      | Inr adjusted_date \<Rightarrow>
     (let rsn = ''20 years from filing''
      in case (if pta \<noteq> 0
               then (case format_int pta of
                       Inl e \<Rightarrow> Inl e
                     | Inr s \<Rightarrow> Inr (rsn @ '' + '' @ s @ '' days PTA''))
               else Inr rsn) of
        Inl e \<Rightarrow> Inl e
      | Inr rsn \<Rightarrow>
     (case (if pte \<noteq> 0
            then (case format_int pte of
                    Inl e \<Rightarrow> Inl e
                  | Inr s \<Rightarrow> Inr (rsn @ '' + '' @ s @ '' days PTE''))
            else Inr rsn) of
        Inl e \<Rightarrow> Inl e
      | Inr rsn \<Rightarrow>
     (let final = (adjusted_date, rsn)
      in case (case td_date_str of
                 None \<Rightarrow> Inr final
               | Some td_str \<Rightarrow>
                   if td_str = [] then Inr final
                   else (case strptime td_str of
                           Inl e \<Rightarrow> Inl e
                         | Inr td_date \<Rightarrow>
                             if dt_less td_date adjusted_date
                             then Inr (td_date,
                                       ''Terminal Disclaimer (expires with linked patent)'')
                             else Inr final)) of
        Inl e \<Rightarrow> Inl e
      | Inr (final_date, rsn) \<Rightarrow>
          Inr \<lparr>expiry = strftime final_date, reason = rsn,
               is_active = dt_less now final_date,
               baseline_expiry = strftime baseline, pta_days = pta, pte_days = pte,
               calculated_expiry = strftime final_date\<rparr>))))))"

text \<open>\<^verbatim>\<open>calculate_design_patent_expiry(grant_date_str, filing_date_str)\<close>.\<close>

definition calculate_design_patent_expiry ::
  "string \<Rightarrow> string \<Rightarrow> datetime \<Rightarrow> error + expiration" where
  "calculate_design_patent_expiry grant_date_str filing_date_str now =
     (case strptime grant_date_str of
        Inl e \<Rightarrow> Inl e
      | Inr grant_date \<Rightarrow>
     (case strptime filing_date_str of
        Inl e \<Rightarrow> Inl e
      | Inr filing_date \<Rightarrow>
     (case strptime ''2015-05-13'' of
        Inl e \<Rightarrow> Inl e
      | Inr cutoff_date \<Rightarrow>
          let years_to_add = (if dt_ge filing_date cutoff_date then 15 else 14)
          in (case add_relativedelta_years grant_date years_to_add of
                Inl e \<Rightarrow> Inl e
              | Inr baseline \<Rightarrow>
             (case format_int years_to_add of
                Inl e \<Rightarrow> Inl e
              | Inr s \<Rightarrow>
                  let rsn = s @ '' years from grant date''
                  in Inr \<lparr>expiry = strftime baseline, reason = rsn,
                          is_active = dt_less now baseline,
                          baseline_expiry = strftime baseline, pta_days = 0, pte_days = 0,
                          calculated_expiry = strftime baseline\<rparr>)))))"

text \<open>\<^verbatim>\<open>calculate_maintenance_fees(grant_date_str)\<close> with its two inner functions.\<close>

definition add_years_months :: "datetime \<Rightarrow> int \<Rightarrow> int \<Rightarrow> error + datetime" where
  "add_years_months date years months =
     (let new_month = month date + months;
          new_year = year date + years + (new_month - 1) div 12;
          new_month = ((new_month - 1) mod 12) + 1
      in case monthrange_ndays new_year new_month of
           Inl e \<Rightarrow> Inl e
         | Inr last_day_of_month \<Rightarrow>
             replace_ymd date new_year new_month (min (day date) last_day_of_month))"

record fee_window =
  due_date :: string
  window_start :: string
  window_end :: string
  surcharge_end :: string

definition fee_schedule :: "datetime \<Rightarrow> error + fee_window" where
  "fee_schedule due =
     (case add_years_months due 0 (- 6) of
        Inl e \<Rightarrow> Inl e
      | Inr ws \<Rightarrow>
     (case add_years_months due 0 6 of
        Inl e \<Rightarrow> Inl e
      | Inr se \<Rightarrow>
          Inr \<lparr>due_date = strftime due, window_start = strftime ws,
               window_end = strftime due, surcharge_end = strftime se\<rparr>))"

record maintenance_fees =
  year_3_5 :: fee_window
  year_7_5 :: fee_window
  year_11_5 :: fee_window

definition calculate_maintenance_fees :: "string \<Rightarrow> error + maintenance_fees" where
  "calculate_maintenance_fees grant_date_str =
     (case strptime grant_date_str of
        Inl e \<Rightarrow> Inl e
      | Inr grant_date \<Rightarrow>
     (case add_years_months grant_date 3 6 of
        Inl e \<Rightarrow> Inl e
      | Inr y_3_5 \<Rightarrow>
     (case add_years_months grant_date 7 6 of
        Inl e \<Rightarrow> Inl e
      | Inr y_7_5 \<Rightarrow>
     (case add_years_months grant_date 11 6 of
        Inl e \<Rightarrow> Inl e
      | Inr y_11_5 \<Rightarrow>
     (case fee_schedule y_3_5 of
        Inl e \<Rightarrow> Inl e
      | Inr w1 \<Rightarrow>
     (case fee_schedule y_7_5 of
        Inl e \<Rightarrow> Inl e
      | Inr w2 \<Rightarrow>
     (case fee_schedule y_11_5 of
        Inl e \<Rightarrow> Inl e
      | Inr w3 \<Rightarrow> Inr \<lparr>year_3_5 = w1, year_7_5 = w2, year_11_5 = w3\<rparr>)))))))"

section \<open>Notions used to state and prove the properties\<close>

text \<open>
  The tail of \<^const>\<open>ord2ymd\<close>, from the estimate of the month on: the month and the day
  of the \<open>n\<close>-th day (counted from 0) of a year that is or is not a leap year.
\<close>

definition month_day :: "bool \<Rightarrow> int \<Rightarrow> int \<times> int" where
  "month_day leapyear n =
     (let m = (n + 50) div 32;
          preceding = DAYS_BEFORE_MONTH ! nat m + (if m > 2 \<and> leapyear then 1 else 0)
      in if preceding > n
         then (m - 1, n - (preceding - (DAYS_IN_MONTH ! nat (m - 1)
                                      + (if m - 1 = 2 \<and> leapyear then 1 else 0))) + 1)
         else (m, n - preceding + 1))"

text \<open>A value that the \<^verbatim>\<open>datetime\<close> constructor accepts.\<close>

definition valid_date :: "datetime \<Rightarrow> bool" where
  "valid_date dt = check_date_fields (year dt) (month dt) (day dt)"

text \<open>
  The fee windows in the specification's words: a date \<open>clamp_day y m d\<close> is the day \<open>d\<close>
  of month \<open>m\<close> of year \<open>y\<close>, cut to the last day of that month; a milestone is \<open>k\<close>
  years and six months after a date, six months later carrying into the next year when
  the month passes December; six months earlier borrows a year when the month falls
  below January.
\<close>

definition clamp_day :: "int \<Rightarrow> int \<Rightarrow> int \<Rightarrow> datetime" where
  "clamp_day y m d = midnight y m (min d (days_in_month y m))"

definition milestone :: "int \<Rightarrow> datetime \<Rightarrow> datetime" where
  "milestone k dt =
     (if month dt \<le> 6 then clamp_day (year dt + k) (month dt + 6) (day dt)
      else clamp_day (year dt + k + 1) (month dt - 6) (day dt))"

definition half_year_later :: "datetime \<Rightarrow> datetime" where
  "half_year_later dt = milestone 0 dt"

definition half_year_earlier :: "datetime \<Rightarrow> datetime" where
  "half_year_earlier dt =
     (if 6 < month dt then clamp_day (year dt) (month dt - 6) (day dt)
      else clamp_day (year dt - 1) (month dt + 6) (day dt))"

definition window_of :: "datetime \<Rightarrow> fee_window" where
  "window_of due =
     \<lparr>due_date = strftime due, window_start = strftime (half_year_earlier due),
      window_end = strftime due, surcharge_end = strftime (half_year_later due)\<rparr>"

section \<open>The calendar: ordinals and dates\<close>

text \<open>The leap-year test of the source file is the library's.\<close>

lemma is_leap_year_isleap: "is_leap_year y = isleap y"
  by (auto simp: is_leap_year_def isleap_def)

lemma month_cases:
  assumes "1 \<le> (m::int)" "m \<le> 12"
  obtains "m = 1" | "m = 2" | "m = 3" | "m = 4" | "m = 5" | "m = 6"
    | "m = 7" | "m = 8" | "m = 9" | "m = 10" | "m = 11" | "m = 12"
proof -
  have "m = 1 \<or> m = 2 \<or> m = 3 \<or> m = 4 \<or> m = 5 \<or> m = 6 \<or> m = 7 \<or> m = 8 \<or> m = 9
      \<or> m = 10 \<or> m = 11 \<or> m = 12"
    using assms by arith
  then show thesis using that by blast
qed

lemma div32I: "32 * k \<le> x \<Longrightarrow> x < 32 * k + 32 \<Longrightarrow> x div 32 = (k::int)"
  by arith

lemma month_day_gen:
  assumes p: "DAYS_BEFORE_MONTH ! nat m + (if m > 2 \<and> L then 1 else 0) = p"
    and q: "DAYS_IN_MONTH ! nat m + (if m = 2 \<and> L then 1 else 0) = q"
    and nxt: "m < 12 \<Longrightarrow>
                DAYS_BEFORE_MONTH ! nat (m + 1) + (if m + 1 > 2 \<and> L then 1 else 0) = p + q"
    and lo: "32 * m \<le> p + 50"
    and hi: "p + q + 49 < 32 * m + (if m < 12 then 64 else 32)"
    and d: "1 \<le> d" "d \<le> q"
  shows "month_day L (p + d - 1) = (m, d)"
proof (cases "p + d - 1 + 50 < 32 * m + 32")
  case True
  with lo d have "(p + d - 1 + 50) div 32 = m" by (intro div32I) simp_all
  then show ?thesis using p d by (simp add: month_day_def Let_def split del: if_split)
next
  case False
  with hi d have m: "m < 12" by (simp split: if_splits)
  with False hi d have "(p + d - 1 + 50) div 32 = m + 1" by (intro div32I) simp_all
  then show ?thesis using nxt[OF m] q d
    by (simp add: month_day_def Let_def split del: if_split)
qed

lemma tables_next:
  assumes "1 \<le> m" "m < 12"
  shows "DAYS_BEFORE_MONTH ! nat (m + 1) + (if m + 1 > 2 \<and> L then 1 else 0)
       = DAYS_BEFORE_MONTH ! nat m + (if m > 2 \<and> L then 1 else 0)
         + (DAYS_IN_MONTH ! nat m + (if m = 2 \<and> L then 1 else 0))"
proof -
  from assms have "1 \<le> m" "m \<le> 12" by simp_all
  then show ?thesis using assms(2)
    by (cases m rule: month_cases) (simp_all add: DAYS_BEFORE_MONTH_def DAYS_IN_MONTH_def)
qed

lemma tables_lo:
  assumes "1 \<le> m" "m \<le> 12"
  shows "32 * m \<le> DAYS_BEFORE_MONTH ! nat m + (if m > 2 \<and> L then 1 else 0) + 50"
  using assms by (cases m rule: month_cases) (simp_all add: DAYS_BEFORE_MONTH_def)

lemma tables_hi:
  assumes "1 \<le> m" "m \<le> 12"
  shows "DAYS_BEFORE_MONTH ! nat m + (if m > 2 \<and> L then 1 else 0)
         + (DAYS_IN_MONTH ! nat m + (if m = 2 \<and> L then 1 else 0)) + 49
         < 32 * m + (if m < 12 then 64 else 32)"
  using assms
  by (cases m rule: month_cases) (simp_all add: DAYS_BEFORE_MONTH_def DAYS_IN_MONTH_def)

lemma month_day_decode:
  assumes m: "1 \<le> m" "m \<le> 12"
    and d: "1 \<le> d" "d \<le> DAYS_IN_MONTH ! nat m + (if m = 2 \<and> L then 1 else 0)"
  shows "month_day L (DAYS_BEFORE_MONTH ! nat m + (if m > 2 \<and> L then 1 else 0) + d - 1) = (m, d)"
  by (rule month_day_gen[OF refl refl tables_next tables_lo[OF m] tables_hi[OF m] d])
     (use m in simp_all)

lemma year_decomp:
  fixes z :: int
  obtains a b c e where "z = 400 * a + 100 * b + 4 * c + e"
    "0 \<le> b" "b < 4" "0 \<le> c" "c < 25" "0 \<le> e" "e < 4"
proof -
  define r where "r = z mod 400"
  define s where "s = r mod 100"
  have r: "0 \<le> r" "r < 400" by (simp_all add: r_def)
  have s: "0 \<le> s" "s < 100" by (simp_all add: s_def)
  have z: "z = 400 * (z div 400) + r" by (simp add: r_def)
  have r': "r = 100 * (r div 100) + s" by (simp add: s_def)
  have s': "s = 4 * (s div 4) + s mod 4" by simp
  have b: "0 \<le> r div 100" "r div 100 < 4" using r by arith+
  have c: "0 \<le> s div 4" "s div 4 < 25" using s by arith+
  have e: "0 \<le> s mod 4" "s mod 4 < 4" by simp_all
  have "z = 400 * (z div 400) + 100 * (r div 100) + 4 * (s div 4) + s mod 4"
    using z r' s' by linarith
  then show thesis using that b c e by blast
qed

lemma days_before_year_decomp:
  assumes "0 \<le> b" "b < 4" "0 \<le> c" "c < 25" "0 \<le> e" "e < 4"
  shows "days_before_year (400 * a + 100 * b + 4 * c + e + 1)
       = 146097 * a + 36524 * b + 1461 * c + 365 * e"
proof -
  define z where "z = 400 * a + 100 * b + 4 * c + e"
  have 1: "z div 4 = 100 * a + 25 * b + c"
    by (rule int_div_pos_eq[where r = e]) (use assms in \<open>simp_all add: z_def\<close>)
  have 2: "z div 100 = 4 * a + b"
    by (rule int_div_pos_eq[where r = "4 * c + e"]) (use assms in \<open>simp_all add: z_def\<close>)
  have 3: "z div 400 = a"
    by (rule int_div_pos_eq[where r = "100 * b + 4 * c + e"]) (use assms in \<open>simp_all add: z_def\<close>)
  have "days_before_year (z + 1) = z * 365 + z div 4 - z div 100 + z div 400"
    by (simp add: days_before_year_def)
  then show ?thesis unfolding 1 2 3 by (simp add: z_def)
qed

lemma isleap_decomp:
  assumes "0 \<le> b" "b < 4" "0 \<le> c" "c < 25" "0 \<le> e" "e < 4"
  shows "isleap (400 * a + 100 * b + 4 * c + e + 1) \<longleftrightarrow> e = 3 \<and> (c \<noteq> 24 \<or> b = 3)"
proof -
  define y where "y = 400 * a + 100 * b + 4 * c + e + 1"
  have m4: "y mod 4 = 0 \<longleftrightarrow> e = 3"
  proof (cases "e = 3")
    case True
    then have "y = 4 * (100 * a + 25 * b + c + 1) + 0" by (simp add: y_def)
    then have "y mod 4 = 0" by (rule int_mod_pos_eq) simp_all
    with True show ?thesis by simp
  next
    case False
    have "y = 4 * (100 * a + 25 * b + c) + (e + 1)" by (simp add: y_def)
    then have "y mod 4 = e + 1" by (rule int_mod_pos_eq) (use assms False in simp_all)
    with False assms show ?thesis by simp
  qed
  have m100: "y mod 100 = 0 \<longleftrightarrow> e = 3 \<and> c = 24"
  proof (cases "e = 3 \<and> c = 24")
    case True
    then have "y = 100 * (4 * a + b + 1) + 0" by (simp add: y_def)
    then have "y mod 100 = 0" by (rule int_mod_pos_eq) simp_all
    with True show ?thesis by simp
  next
    case False
    have "y = 100 * (4 * a + b) + (4 * c + e + 1)" by (simp add: y_def)
    then have "y mod 100 = 4 * c + e + 1"
      by (rule int_mod_pos_eq) (use assms False in \<open>simp_all, arith\<close>)
    with False assms show ?thesis by simp
  qed
  have m400: "y mod 400 = 0 \<longleftrightarrow> e = 3 \<and> c = 24 \<and> b = 3"
  proof (cases "e = 3 \<and> c = 24 \<and> b = 3")
    case True
    then have "y = 400 * (a + 1) + 0" by (simp add: y_def)
    then have "y mod 400 = 0" by (rule int_mod_pos_eq) simp_all
    with True show ?thesis by simp
  next
    case False
    have "y = 400 * a + (100 * b + 4 * c + e + 1)" by (simp add: y_def)
    then have "y mod 400 = 100 * b + 4 * c + e + 1"
      by (rule int_mod_pos_eq) (use assms False in \<open>simp_all, arith\<close>)
    with False assms show ?thesis by simp
  qed
  show ?thesis unfolding isleap_def y_def[symmetric] m4 m100 m400 by auto
qed

lemma pair_if: "(a, if c then p else q) = (if c then (a, p) else (a, q))"
  by simp
lemma ord2ymd_month_day:
  "ord2ymd n0 =
    (let n = n0 - 1;
         n400 = n div 146097; n = n mod 146097;
         n100 = n div 36524; n = n mod 36524;
         n4 = n div 1461; n = n mod 1461;
         n1 = n div 365; n = n mod 365;
         y = n400 * 400 + 1 + n100 * 100 + n4 * 4 + n1
     in if n1 = 4 \<or> n100 = 4 then (y - 1, 12, 31)
        else (y, month_day (n1 = 3 \<and> (n4 \<noteq> 24 \<or> n100 = 3)) n))"
  unfolding ord2ymd_def month_day_def Let_def pair_if by (rule refl)

lemma divmod_eq:
  fixes x :: int
  assumes "x = k * q + r" "0 \<le> r" "r < k"
  shows "x div k = q" "x mod k = r"
  using assms by (rule int_div_pos_eq, rule int_mod_pos_eq)

lemma ord2ymd_digits:
  assumes "(n0 - 1) div 146097 = a" "(n0 - 1) mod 146097 = R1"
    "R1 div 36524 = b" "R1 mod 36524 = R2"
    "R2 div 1461 = c" "R2 mod 1461 = R3"
    "R3 div 365 = e" "R3 mod 365 = t"
  shows "ord2ymd n0 =
     (if e = 4 \<or> b = 4 then (a * 400 + 1 + b * 100 + c * 4 + e - 1, 12, 31)
      else (a * 400 + 1 + b * 100 + c * 4 + e, month_day (e = 3 \<and> (c \<noteq> 24 \<or> b = 3)) t))"
  unfolding ord2ymd_month_day Let_def assms by (rule refl)

lemma ord2ymd_regular:
  assumes b: "0 \<le> b" "b < 4" and c: "0 \<le> c" "c < 25" and e: "0 \<le> e" "e < 4"
    and t: "0 \<le> t" "t < 365"
  shows "ord2ymd (146097 * a + 36524 * b + 1461 * c + 365 * e + t + 1)
       = (400 * a + 100 * b + 4 * c + e + 1, month_day (e = 3 \<and> (c \<noteq> 24 \<or> b = 3)) t)"
proof -
  define N where "N = 146097 * a + 36524 * b + 1461 * c + 365 * e + t"
  define R1 where "R1 = 36524 * b + 1461 * c + 365 * e + t"
  define R2 where "R2 = 1461 * c + 365 * e + t"
  define R3 where "R3 = 365 * e + t"
  have N: "N = 146097 * a + R1" by (simp add: N_def R1_def)
  have R1: "R1 = 36524 * b + R2" by (simp add: R1_def R2_def)
  have R2: "R2 = 1461 * c + R3" by (simp add: R2_def R3_def)
  have R3: "R3 = 365 * e + t" by (simp add: R3_def)
  have b3: "0 \<le> R3" "R3 < 1461" using e t unfolding R3_def by linarith+
  have b2: "0 \<le> R2" "R2 < 36524" using c e t unfolding R2_def by linarith+
  have b1: "0 \<le> R1" "R1 < 146097" using b b2 unfolding R1 by linarith+
  have "ord2ymd (N + 1) =
     (if e = 4 \<or> b = 4 then (a * 400 + 1 + b * 100 + c * 4 + e - 1, 12, 31)
      else (a * 400 + 1 + b * 100 + c * 4 + e, month_day (e = 3 \<and> (c \<noteq> 24 \<or> b = 3)) t))"
  proof (rule ord2ymd_digits)
    show "(N + 1 - 1) div 146097 = a" "(N + 1 - 1) mod 146097 = R1"
      using divmod_eq[OF N b1] by simp_all
    show "R1 div 36524 = b" "R1 mod 36524 = R2" using divmod_eq[OF R1 b2] by simp_all
    show "R2 div 1461 = c" "R2 mod 1461 = R3" using divmod_eq[OF R2 b3] by simp_all
    show "R3 div 365 = e" "R3 mod 365 = t" using divmod_eq[OF R3 t] by simp_all
  qed
  moreover have "\<not> (e = 4 \<or> b = 4)" using b e by simp
  ultimately show ?thesis by (simp add: N_def)
qed


lemma ord2ymd_leap_end:
  assumes b: "0 \<le> b" "b < 4" and c: "0 \<le> c" "c < 25" and L: "c \<noteq> 24 \<or> b = 3"
  shows "ord2ymd (146097 * a + 36524 * b + 1461 * c + 365 * 3 + 365 + 1)
       = (400 * a + 100 * b + 4 * c + 3 + 1, 12, 31)"
proof (cases "c = 24")
  case False
  define N where "N = 146097 * a + 36524 * b + 1461 * c + 365 * 3 + 365"
  define R1 where "R1 = 36524 * b + 1461 * c + 1460"
  define R2 where "R2 = 1461 * c + 1460"
  have N: "N = 146097 * a + R1" by (simp add: N_def R1_def)
  have R1: "R1 = 36524 * b + R2" by (simp add: R1_def R2_def)
  have R2: "R2 = 1461 * c + 1460" by (simp add: R2_def)
  have R3: "(1460::int) = 365 * 4 + 0" by simp
  have b2: "0 \<le> R2" "R2 < 36524" using c False unfolding R2_def by linarith+
  have b1: "0 \<le> R1" "R1 < 146097" using b b2 unfolding R1 by linarith+
  have "ord2ymd (N + 1) =
     (if (4::int) = 4 \<or> b = 4 then (a * 400 + 1 + b * 100 + c * 4 + 4 - 1, 12, 31)
      else (a * 400 + 1 + b * 100 + c * 4 + 4, month_day (4 = (3::int) \<and> (c \<noteq> 24 \<or> b = 3)) 0))"
  proof (rule ord2ymd_digits)
    show "(N + 1 - 1) div 146097 = a" "(N + 1 - 1) mod 146097 = R1"
      using divmod_eq[OF N b1] by simp_all
    show "R1 div 36524 = b" "R1 mod 36524 = R2" using divmod_eq[OF R1 b2] by simp_all
    show "R2 div 1461 = c" "R2 mod 1461 = 1460" using divmod_eq[OF R2] by simp_all
    show "(1460::int) div 365 = 4" "(1460::int) mod 365 = 0" by simp_all
  qed
  then show ?thesis by (simp add: N_def)
next
  case True
  with L have b3: "b = 3" by simp
  define N where "N = 146097 * a + 36524 * b + 1461 * c + 365 * 3 + 365"
  have N: "N = 146097 * a + 146096" by (simp add: N_def True b3)
  have "ord2ymd (N + 1) =
     (if (0::int) = 4 \<or> (4::int) = 4 then (a * 400 + 1 + 4 * 100 + 0 * 4 + 0 - 1, 12, 31)
      else (a * 400 + 1 + 4 * 100 + 0 * 4 + 0, month_day (0 = (3::int) \<and> ((0::int) \<noteq> 24 \<or> 4 = (3::int))) 0))"
  proof (rule ord2ymd_digits)
    show "(N + 1 - 1) div 146097 = a" "(N + 1 - 1) mod 146097 = 146096"
      using divmod_eq[OF N] by simp_all
    show "(146096::int) div 36524 = 4" "(146096::int) mod 36524 = 0" by simp_all
    show "(0::int) div 1461 = 0" "(0::int) mod 1461 = 0" by simp_all
    show "(0::int) div 365 = 0" "(0::int) mod 365 = 0" by simp_all
  qed
  then show ?thesis by (simp add: N_def True b3)
qed

lemma day_of_year_bounds:
  assumes m: "1 \<le> m" "m \<le> 12"
    and d: "1 \<le> d" "d \<le> DAYS_IN_MONTH ! nat m + (if m = 2 \<and> L then 1 else 0)"
  defines "t \<equiv> DAYS_BEFORE_MONTH ! nat m + (if m > 2 \<and> L then 1 else 0) + d - 1"
  shows "0 \<le> t" "t \<le> 364 + (if L then 1 else 0)" "t = 365 \<Longrightarrow> m = 12 \<and> d = 31"
  using m d unfolding t_def
  by (cases m rule: month_cases;
      simp add: DAYS_BEFORE_MONTH_def DAYS_IN_MONTH_def split: if_splits)+

lemma days_in_month_table:
  "1 \<le> m \<Longrightarrow> m \<le> 12 \<Longrightarrow>
   days_in_month y m = DAYS_IN_MONTH ! nat m + (if m = 2 \<and> isleap y then 1 else 0)"
  by (auto simp: days_in_month_def DAYS_IN_MONTH_def)

lemma ord2ymd_ymd2ord:
  assumes m: "1 \<le> m" "m \<le> 12" and d: "1 \<le> d" "d \<le> days_in_month y m"
  shows "ord2ymd (ymd2ord y m d) = (y, m, d)"
proof -
  obtain a b c e where z: "y - 1 = 400 * a + 100 * b + 4 * c + e"
    and b: "0 \<le> b" "b < 4" and c: "0 \<le> c" "c < 25" and e: "0 \<le> e" "e < 4"
    by (rule year_decomp)
  have y: "y = 400 * a + 100 * b + 4 * c + e + 1" using z by simp
  define L where "L \<longleftrightarrow> e = 3 \<and> (c \<noteq> 24 \<or> b = 3)"
  have leap: "isleap y = L" unfolding y L_def by (rule isleap_decomp[OF b c e])
  have dby: "days_before_year y = 146097 * a + 36524 * b + 1461 * c + 365 * e"
    unfolding y by (rule days_before_year_decomp[OF b c e])
  define t where "t = DAYS_BEFORE_MONTH ! nat m + (if m > 2 \<and> L then 1 else 0) + d - 1"
  have d': "d \<le> DAYS_IN_MONTH ! nat m + (if m = 2 \<and> L then 1 else 0)"
    using d(2) by (simp add: days_in_month_table[OF m] leap)
  note tb = day_of_year_bounds[OF m d(1) d', folded t_def]
  have ord: "ymd2ord y m d = 146097 * a + 36524 * b + 1461 * c + 365 * e + t + 1"
    by (simp add: ymd2ord_def dby days_before_month_def leap t_def)
  show ?thesis
  proof (cases "t = 365")
    case True
    with tb(2) have L by (simp split: if_splits)
    then have e3: "e = 3" and cb: "c \<noteq> 24 \<or> b = 3" by (simp_all add: L_def)
    from tb(3)[OF True] have md: "m = 12" "d = 31" by simp_all
    have "ord2ymd (ymd2ord y m d) = (400 * a + 100 * b + 4 * c + 3 + 1, 12, 31)"
      unfolding ord True e3 by (rule ord2ymd_leap_end[OF b c cb])
    then show ?thesis by (simp add: y e3 md)
  next
    case False
    with tb have t: "0 \<le> t" "t < 365" by (simp_all split: if_splits)
    have "month_day L t = (m, d)"
      unfolding t_def by (rule month_day_decode[OF m d(1) d'])
    moreover have "ord2ymd (ymd2ord y m d)
        = (400 * a + 100 * b + 4 * c + e + 1, month_day (e = 3 \<and> (c \<noteq> 24 \<or> b = 3)) t)"
      unfolding ord by (rule ord2ymd_regular[OF b c e t])
    ultimately show ?thesis by (simp add: y L_def)
  qed
qed

lemma ymd2ord_range:
  assumes "check_date_fields y m d"
  shows "0 < ymd2ord y m d" "ymd2ord y m d \<le> MAXORDINAL"
proof -
  from assms have yr: "1 \<le> y" "y \<le> 9999" and m: "1 \<le> m" "m \<le> 12"
    and d: "1 \<le> d" "d \<le> days_in_month y m"
    by (simp_all add: check_date_fields_def MINYEAR_def MAXYEAR_def)
  obtain a b c e where z: "y - 1 = 400 * a + 100 * b + 4 * c + e"
    and b: "0 \<le> b" "b < 4" and c: "0 \<le> c" "c < 25" and e: "0 \<le> e" "e < 4"
    by (rule year_decomp)
  have y: "y = 400 * a + 100 * b + 4 * c + e + 1" using z by simp
  define L where "L \<longleftrightarrow> e = 3 \<and> (c \<noteq> 24 \<or> b = 3)"
  have leap: "isleap y = L" unfolding y L_def by (rule isleap_decomp[OF b c e])
  have dby: "days_before_year y = 146097 * a + 36524 * b + 1461 * c + 365 * e"
    unfolding y by (rule days_before_year_decomp[OF b c e])
  define t where "t = DAYS_BEFORE_MONTH ! nat m + (if m > 2 \<and> L then 1 else 0) + d - 1"
  have d': "d \<le> DAYS_IN_MONTH ! nat m + (if m = 2 \<and> L then 1 else 0)"
    using d(2) by (simp add: days_in_month_table[OF m] leap)
  note tb = day_of_year_bounds[OF m d(1) d', folded t_def]
  have ord: "ymd2ord y m d = 146097 * a + 36524 * b + 1461 * c + 365 * e + t + 1"
    by (simp add: ymd2ord_def dby days_before_month_def leap t_def)
  have a: "0 \<le> a" "a \<le> 24" using yr b c e unfolding y by linarith+
  show "0 < ymd2ord y m d" unfolding ord using a b c e tb(1) by linarith
  have "146097 * a + 36524 * b + 1461 * c + 365 * e + t + 1 \<le> 3652059"
  proof (cases "a = 24")
    case False
    with a have "a \<le> 23" by simp
    moreover have "t \<le> 365" using tb(2) by (simp split: if_splits)
    ultimately show ?thesis using b c e by linarith
  next
    case a24: True
    with yr(2) have s: "100 * b + 4 * c + e \<le> 398" unfolding y by simp
    show ?thesis
    proof (cases L)
      case True
      then have "e = 3" "c \<noteq> 24 \<or> b = 3" by (simp_all add: L_def)
      with s b c have "c \<le> 23" by linarith
      moreover have "t \<le> 365" using tb(2) by (simp split: if_splits)
      ultimately show ?thesis using a24 b \<open>e = 3\<close> by linarith
    next
      case False
      then have t: "t \<le> 364" using tb(2) by simp
      show ?thesis
      proof (cases "e = 3")
        case True
        with False have "c = 24" "b \<noteq> 3" by (simp_all add: L_def)
        with b have "b \<le> 2" by simp
        then show ?thesis using a24 c e t by linarith
      next
        case False
        with e have "e \<le> 2" by simp
        then show ?thesis using a24 b c t by linarith
      qed
    qed
  qed
  then show "ymd2ord y m d \<le> MAXORDINAL" by (simp add: ord MAXORDINAL_def)
qed

lemma add_timedelta_days_zero:
  assumes "valid_date dt"
  shows "add_timedelta_days dt 0 = Inr dt"
proof -
  from assms have v: "check_date_fields (year dt) (month dt) (day dt)"
    by (simp add: valid_date_def)
  then have "ord2ymd (toordinal dt) = (year dt, month dt, day dt)"
    unfolding toordinal_def by (intro ord2ymd_ymd2ord) (simp_all add: check_date_fields_def)
  with ymd2ord_range[OF v] show ?thesis
    by (simp add: add_timedelta_days_def toordinal_def)
qed

lemma monthrange_ndays_eq:
  "1 \<le> m \<Longrightarrow> m \<le> 12 \<Longrightarrow> monthrange_ndays y m = Inr (days_in_month y m)"
  by (simp add: monthrange_ndays_def days_in_month_table)

lemma days_in_month_ge_28:
  "1 \<le> m \<Longrightarrow> m \<le> 12 \<Longrightarrow> 28 \<le> days_in_month y m"
  by (cases m rule: month_cases) (simp_all add: days_in_month_def DAYS_IN_MONTH_def)

lemma days_in_month_le_31:
  "1 \<le> m \<Longrightarrow> m \<le> 12 \<Longrightarrow> days_in_month y m \<le> 31"
  by (cases m rule: month_cases) (simp_all add: days_in_month_def DAYS_IN_MONTH_def)

text \<open>The fields of a date fit a C integer, so \<^verbatim>\<open>replace\<close> accepts every date.\<close>

lemma check_date_fields_c_int:
  assumes "check_date_fields y m d"
  shows "c_int y" "c_int m" "c_int d"
proof -
  from assms have b: "1 \<le> y" "y \<le> 9999" "1 \<le> m" "m \<le> 12" "1 \<le> d"
    "d \<le> days_in_month y m"
    by (simp_all add: check_date_fields_def MINYEAR_def MAXYEAR_def)
  from b(1,2) show "c_int y" by (simp add: c_int_def)
  from b(3,4) show "c_int m" by (simp add: c_int_def)
  from b(5,6) days_in_month_le_31[OF b(3,4), of y] show "c_int d" by (simp add: c_int_def)
qed

lemma replace_ymd_Inr:
  "replace_ymd dt y m d = Inr r \<longleftrightarrow>
     check_date_fields y m d \<and> r = dt\<lparr>year := y, month := m, day := d\<rparr>"
  using check_date_fields_c_int[of y m d] by (auto simp: replace_ymd_def)

lemma replace_ymd_Inl:
  "replace_ymd dt y m d = Inl e \<longleftrightarrow>
     \<not> check_date_fields y m d
     \<and> e = (if c_int y \<and> c_int m \<and> c_int d then ValueError else OverflowError)"
  using check_date_fields_c_int[of y m d] by (auto simp: replace_ymd_def)

text \<open>Shifting the year and cutting the day to the month's length gives a valid date
  exactly when the new year is in range.\<close>

lemma check_clamped:
  assumes "1 \<le> m" "m \<le> 12" "1 \<le> d"
  shows "check_date_fields y m (min d (days_in_month y m)) \<longleftrightarrow> 1 \<le> y \<and> y \<le> 9999"
  using assms days_in_month_ge_28[OF assms(1,2), of y]
  by (auto simp: check_date_fields_def MINYEAR_def MAXYEAR_def)

text \<open>
  \<^verbatim>\<open>replace\<close> with a day cut to the month's length: the new year decides the outcome.
\<close>

lemma replace_ymd_clamped:
  assumes "1 \<le> m" "m \<le> 12" "1 \<le> d"
  shows "replace_ymd dt y m (min d (days_in_month y m)) =
     (if 1 \<le> y \<and> y \<le> 9999
      then Inr (dt\<lparr>year := y, month := m, day := min d (days_in_month y m)\<rparr>)
      else if c_int y then Inl ValueError else Inl OverflowError)"
proof -
  let ?d = "min d (days_in_month y m)"
  have chk: "check_date_fields y m ?d \<longleftrightarrow> 1 \<le> y \<and> y \<le> 9999"
    by (rule check_clamped[OF assms])
  have "1 \<le> ?d" "?d \<le> 31"
    using assms(3) days_in_month_ge_28[OF assms(1,2), of y]
      days_in_month_le_31[OF assms(1,2), of y] by simp_all
  then have cd: "c_int ?d" by (simp add: c_int_def)
  have cm: "c_int m" using assms(1,2) by (simp add: c_int_def)
  show ?thesis
  proof (cases "1 \<le> y \<and> y \<le> 9999")
    case True
    then have "c_int y" by (simp add: c_int_def)
    with True chk cm cd show ?thesis by (simp add: replace_ymd_def)
  next
    case False
    with chk cm cd show ?thesis by (simp add: replace_ymd_def)
  qed
qed

text \<open>Both year shifts are one call of \<^verbatim>\<open>replace\<close> with the clamped day.\<close>

lemma add_years_months_replace:
  assumes "valid_date dt"
  shows "add_years_months dt k 0 =
     replace_ymd dt (year dt + k) (month dt)
       (min (day dt) (days_in_month (year dt + k) (month dt)))"
proof -
  from assms have m: "1 \<le> month dt" "month dt \<le> 12"
    by (simp_all add: valid_date_def check_date_fields_def)
  have dv: "(month dt - 1) div 12 = 0" "(month dt - 1) mod 12 = month dt - 1"
    using m by simp_all
  show ?thesis
    by (simp add: add_years_months_def Let_def dv monthrange_ndays_eq[OF m])
qed

lemma add_relativedelta_years_replace:
  assumes "valid_date dt"
  shows "add_relativedelta_years dt k =
     replace_ymd dt (year dt + k) (month dt)
       (min (day dt) (days_in_month (year dt + k) (month dt)))"
proof -
  from assms have m: "1 \<le> month dt" "month dt \<le> 12"
    by (simp_all add: valid_date_def check_date_fields_def)
  let ?r = "replace_ymd dt (year dt + k) (month dt)
       (min (day dt) (days_in_month (year dt + k) (month dt)))"
  have u: "add_relativedelta_years dt k =
      (case ?r of Inl e \<Rightarrow> Inl e | Inr repl \<Rightarrow> add_timedelta_days repl 0)"
    by (simp add: add_relativedelta_years_def monthrange_ndays_eq[OF m] min.commute Let_def)
  show ?thesis
  proof (cases ?r)
    case (Inl e)
    with u show ?thesis by simp
  next
    case (Inr repl)
    then have "valid_date repl" by (auto simp: replace_ymd_Inr valid_date_def)
    from add_timedelta_days_zero[OF this] u Inr show ?thesis by simp
  qed
qed

lemma c_int_year:
  assumes "valid_date dt" "- 1000000 \<le> k" "k \<le> 1000000"
  shows "c_int (year dt + k)"
  using assms by (simp add: valid_date_def check_date_fields_def MINYEAR_def MAXYEAR_def c_int_def)

lemma add_relativedelta_years_eq:
  assumes "valid_date dt" and "- 1000000 \<le> k" "k \<le> 1000000"
  shows "add_relativedelta_years dt k =
     (if 1 \<le> year dt + k \<and> year dt + k \<le> 9999
      then Inr (dt\<lparr>year := year dt + k, day := min (day dt) (days_in_month (year dt + k) (month dt))\<rparr>)
      else Inl ValueError)"
proof -
  from assms(1) have m: "1 \<le> month dt" "month dt \<le> 12" and d: "1 \<le> day dt"
    by (simp_all add: valid_date_def check_date_fields_def)
  show ?thesis
    using c_int_year[OF assms]
    by (simp add: add_relativedelta_years_replace[OF assms(1)] replace_ymd_clamped[OF m d])
qed

lemma add_years_months_zero_months:
  assumes "valid_date dt" and "- 1000000 \<le> k" "k \<le> 1000000"
  shows "add_years_months dt k 0 =
     (if 1 \<le> year dt + k \<and> year dt + k \<le> 9999
      then Inr (dt\<lparr>year := year dt + k, day := min (day dt) (days_in_month (year dt + k) (month dt))\<rparr>)
      else Inl ValueError)"
proof -
  from assms(1) have m: "1 \<le> month dt" "month dt \<le> 12" and d: "1 \<le> day dt"
    by (simp_all add: valid_date_def check_date_fields_def)
  show ?thesis
    using c_int_year[OF assms]
    by (simp add: add_years_months_replace[OF assms(1)] replace_ymd_clamped[OF m d])
qed

lemma month_day_valid:
  assumes t: "0 \<le> t" "t < 365"
  shows "\<exists>m d. month_day L t = (m, d) \<and> 1 \<le> m \<and> m \<le> 12 \<and> 1 \<le> d
           \<and> d \<le> DAYS_IN_MONTH ! nat m + (if m = 2 \<and> L then 1 else 0)"
proof -
  define k where "k = (t + 50) div 32"
  have k: "1 \<le> k" "k \<le> 12" using t unfolding k_def by arith+
  have kb: "32 * k \<le> t + 50" "t + 50 < 32 * k + 32" unfolding k_def by arith+
  have md: "month_day L t =
     (if DAYS_BEFORE_MONTH ! nat k + (if k > 2 \<and> L then 1 else 0) > t
      then (k - 1, t - (DAYS_BEFORE_MONTH ! nat k + (if k > 2 \<and> L then 1 else 0)
                        - (DAYS_IN_MONTH ! nat (k - 1)
                           + (if k - 1 = 2 \<and> L then 1 else 0))) + 1)
      else (k, t - (DAYS_BEFORE_MONTH ! nat k + (if k > 2 \<and> L then 1 else 0)) + 1))"
    by (simp add: month_day_def Let_def k_def)
  from k show ?thesis
  proof (cases k rule: month_cases)
    case 1 with kb t show ?thesis unfolding md
      by (simp add: DAYS_BEFORE_MONTH_def DAYS_IN_MONTH_def)
  next
    case 2 with kb t show ?thesis unfolding md
      by (simp add: DAYS_BEFORE_MONTH_def DAYS_IN_MONTH_def)
  next
    case 3 with kb t show ?thesis unfolding md
      by (simp add: DAYS_BEFORE_MONTH_def DAYS_IN_MONTH_def)
  next
    case 4 with kb t show ?thesis unfolding md
      by (simp add: DAYS_BEFORE_MONTH_def DAYS_IN_MONTH_def)
  next
    case 5 with kb t show ?thesis unfolding md
      by (simp add: DAYS_BEFORE_MONTH_def DAYS_IN_MONTH_def)
  next
    case 6 with kb t show ?thesis unfolding md
      by (simp add: DAYS_BEFORE_MONTH_def DAYS_IN_MONTH_def)
  next
    case 7 with kb t show ?thesis unfolding md
      by (simp add: DAYS_BEFORE_MONTH_def DAYS_IN_MONTH_def)
  next
    case 8 with kb t show ?thesis unfolding md
      by (simp add: DAYS_BEFORE_MONTH_def DAYS_IN_MONTH_def)
  next
    case 9 with kb t show ?thesis unfolding md
      by (simp add: DAYS_BEFORE_MONTH_def DAYS_IN_MONTH_def)
  next
    case 10 with kb t show ?thesis unfolding md
      by (simp add: DAYS_BEFORE_MONTH_def DAYS_IN_MONTH_def)
  next
    case 11 with kb t show ?thesis unfolding md
      by (simp add: DAYS_BEFORE_MONTH_def DAYS_IN_MONTH_def)
  next
    case 12 with kb t show ?thesis unfolding md
      by (simp add: DAYS_BEFORE_MONTH_def DAYS_IN_MONTH_def)
  qed
qed


lemma ord2ymd_valid:
  assumes n: "0 < n" "n \<le> MAXORDINAL"
  obtains y m d where "ord2ymd n = (y, m, d)" "check_date_fields y m d"
proof -
  define N where "N = n - 1"
  define a where "a = N div 146097"
  define R1 where "R1 = N mod 146097"
  define b where "b = R1 div 36524"
  define R2 where "R2 = R1 mod 36524"
  define c where "c = R2 div 1461"
  define R3 where "R3 = R2 mod 1461"
  define e where "e = R3 div 365"
  define t where "t = R3 mod 365"
  have N: "0 \<le> N" "N \<le> 3652058" using n by (simp_all add: N_def MAXORDINAL_def)
  have eqs: "N = 146097 * a + R1" "R1 = 36524 * b + R2" "R2 = 1461 * c + R3"
    "R3 = 365 * e + t"
    by (simp_all add: a_def R1_def b_def R2_def c_def R3_def e_def t_def)
  have rng: "0 \<le> R1" "R1 < 146097" "0 \<le> R2" "R2 < 36524" "0 \<le> R3" "R3 < 1461"
    "0 \<le> t" "t < 365"
    by (simp_all add: R1_def R2_def R3_def t_def)
  have a: "0 \<le> a" "a \<le> 24" using N eqs(1) rng(1,2) by linarith+
  have b: "0 \<le> b" "b \<le> 4" using eqs(2) rng(1-4) by linarith+
  have c: "0 \<le> c" "c \<le> 24" using eqs(3) rng(3-6) by linarith+
  have e: "0 \<le> e" "e \<le> 4" using eqs(4) rng(5-8) by linarith+
  have o: "ord2ymd n =
     (if e = 4 \<or> b = 4 then (a * 400 + 1 + b * 100 + c * 4 + e - 1, 12, 31)
      else (a * 400 + 1 + b * 100 + c * 4 + e, month_day (e = 3 \<and> (c \<noteq> 24 \<or> b = 3)) t))"
    by (rule ord2ymd_digits)
       (simp_all add: a_def R1_def b_def R2_def c_def R3_def e_def t_def N_def)
  have dec: "days_in_month y 12 = 31" for y
    by (simp add: days_in_month_def DAYS_IN_MONTH_def)
  show thesis
  proof (cases "e = 4 \<or> b = 4")
    case True
    have "1 \<le> 400 * a + 100 * b + 4 * c + e" using a b c e True by linarith
    moreover have "400 * a + 100 * b + 4 * c + e \<le> 9999"
    proof (cases "a = 24")
      case False
      with a have "a \<le> 23" by simp
      then show ?thesis using b c e by linarith
    next
      case a24: True
      with N eqs(1) have r1: "R1 \<le> 145730" by linarith
      with eqs(2) rng(3) have b3: "b \<le> 3" by linarith
      with True have e4: "e = 4" by simp
      with eqs(4) rng(7) have "1460 \<le> R3" by linarith
      with eqs(3) rng(4) have "c \<le> 23" by linarith
      with a24 b3 e4 show ?thesis by linarith
    qed
    ultimately have "check_date_fields (a * 400 + 1 + b * 100 + c * 4 + e - 1) 12 31"
      by (simp add: check_date_fields_def MINYEAR_def MAXYEAR_def dec)
    with o True show ?thesis by (intro that) simp_all
  next
    case False
    with b e have b3: "b < 4" and e3: "e < 4" by simp_all
    have c25: "c < 25" using c by simp
    define y where "y = 400 * a + 100 * b + 4 * c + e + 1"
    define L where "L \<longleftrightarrow> e = 3 \<and> (c \<noteq> 24 \<or> b = 3)"
    have leap: "isleap y = L"
      unfolding y_def L_def by (rule isleap_decomp[OF b(1) b3 c(1) c25 e(1) e3])
    obtain m d where md: "month_day L t = (m, d)" and m: "1 \<le> m" "m \<le> 12"
      and d: "1 \<le> d" "d \<le> DAYS_IN_MONTH ! nat m + (if m = 2 \<and> L then 1 else 0)"
      using month_day_valid[OF rng(7,8), of L] by blast
    have y1: "1 \<le> y" using a b c e by (simp add: y_def)
    have y2: "y \<le> 9999"
    proof (cases "a = 24")
      case False
      with a have "a \<le> 23" by simp
      then show ?thesis using b3 c25 e3 by (simp add: y_def)
    next
      case a24: True
      with N eqs(1) have r1: "R1 \<le> 145730" by linarith
      have "\<not> (b = 3 \<and> c = 24 \<and> e = 3)"
      proof
        assume "b = 3 \<and> c = 24 \<and> e = 3"
        with eqs(2-4) rng(7) have "145731 \<le> R1" by linarith
        with r1 show False by simp
      qed
      then have "100 * b + 4 * c + e \<le> 398" using b3 c25 e3 by linarith
      with a24 show ?thesis by (simp add: y_def)
    qed
    have "check_date_fields y m d"
      using y1 y2 m d
      by (simp add: check_date_fields_def MINYEAR_def MAXYEAR_def days_in_month_table[OF m] leap)
    moreover have "ord2ymd n = (y, m, d)"
      using o False md by (simp add: y_def L_def algebra_simps)
    ultimately show ?thesis by (intro that)
  qed
qed

lemma add_timedelta_days_valid:
  assumes "add_timedelta_days dt n = Inr r"
  shows "valid_date r"
proof -
  from assms have rng: "0 < toordinal dt + n" "toordinal dt + n \<le> MAXORDINAL"
    by (auto simp: add_timedelta_days_def Let_def split: if_splits)
  then obtain y m d where o: "ord2ymd (toordinal dt + n) = (y, m, d)"
    and v: "check_date_fields y m d"
    by (rule ord2ymd_valid)
  from assms rng o have "r = dt\<lparr>year := y, month := m, day := d\<rparr>"
    by (auto simp: add_timedelta_days_def Let_def split: if_splits)
  with v show ?thesis by (simp add: valid_date_def)
qed

lemma toordinal_range:
  "valid_date dt \<Longrightarrow> 0 < toordinal dt \<and> toordinal dt \<le> MAXORDINAL"
  using ymd2ord_range by (simp add: valid_date_def toordinal_def)

lemma add_timedelta_days_returns:
  assumes "valid_date dt"
  shows "(\<exists>r. add_timedelta_days dt n = Inr r) \<longleftrightarrow>
         0 < toordinal dt + n \<and> toordinal dt + n \<le> MAXORDINAL"
proof -
  from toordinal_range[OF assms] have "0 < toordinal dt" "toordinal dt \<le> 3652059"
    by (simp_all add: MAXORDINAL_def)
  then have "0 < toordinal dt + n \<and> toordinal dt + n \<le> 3652059 \<Longrightarrow> \<bar>n\<bar> \<le> 999999999"
    by linarith
  then show ?thesis
    by (auto simp: add_timedelta_days_def Let_def MAXORDINAL_def split: prod.splits)
qed

lemma add_timedelta_days_Inl:
  "add_timedelta_days dt n = Inl e \<Longrightarrow> e = OverflowError"
  by (auto simp: add_timedelta_days_def Let_def split: if_splits prod.splits)

section \<open>Parsing and year shifts\<close>

lemma strptime_Inr:
  assumes "strptime s = Inr dt"
  shows "valid_date dt" "dt = midnight (year dt) (month dt) (day dt)"
  using assms
  by (auto simp: strptime_def valid_date_def midnight_def split: list.splits prod.splits if_splits)

lemma strptime_Inl: "strptime s = Inl e \<Longrightarrow> e = ValueError"
  by (auto simp: strptime_def split: list.splits prod.splits if_splits)

lemma strptime_Nil: "strptime [] = Inl ValueError"
  by (simp add: strptime_def regex_match_def)

lemma valid_dateD:
  assumes "valid_date dt"
  shows "1 \<le> year dt" "year dt \<le> 9999" "1 \<le> month dt" "month dt \<le> 12"
    "1 \<le> day dt" "day dt \<le> days_in_month (year dt) (month dt)"
  using assms by (simp_all add: valid_date_def check_date_fields_def MINYEAR_def MAXYEAR_def)

lemma clamp_feb29:
  assumes "1 \<le> m" "m \<le> 12" "1 \<le> d" "d \<le> days_in_month y m"
  shows "min d (days_in_month y' m) = (if m = 2 \<and> d = 29 \<and> \<not> isleap y' then 28 else d)"
  using assms(1,2,3,4)
  by (cases m rule: month_cases)
     (auto simp: days_in_month_def DAYS_IN_MONTH_def split: if_splits)

lemma valid_date_clamped:
  assumes "valid_date dt" "1 \<le> y" "y \<le> 9999"
  shows "valid_date (dt\<lparr>year := y, day := min (day dt) (days_in_month y (month dt))\<rparr>)"
  using check_clamped[OF valid_dateD(3,4,5)[OF assms(1)], of y] assms(2,3)
  by (simp add: valid_date_def)

lemma add_timedelta_days_Inr:
  assumes "add_timedelta_days dt n = Inr r"
  shows "hour r = hour dt" "minute r = minute dt" "second r = second dt"
    "microsecond r = microsecond dt"
  using assms
  by (auto simp: add_timedelta_days_def Let_def split: if_splits prod.splits)

lemma add_relativedelta_years_Inr:
  assumes "valid_date dt" "add_relativedelta_years dt k = Inr r"
  shows "hour r = hour dt" "minute r = minute dt" "second r = second dt"
    "microsecond r = microsecond dt"
  using assms(2) unfolding add_relativedelta_years_replace[OF assms(1)]
  by (auto simp: replace_ymd_Inr)

lemma midnight_iff:
  "dt = midnight (year dt) (month dt) (day dt) \<longleftrightarrow>
   hour dt = 0 \<and> minute dt = 0 \<and> second dt = 0 \<and> microsecond dt = 0"
  by (cases dt) (auto simp: midnight_def)

lemma dt_less_irrefl: "\<not> dt_less a a"
  by (simp add: dt_less_def dt_fields_def)

section \<open>Printing and reading a date\<close>

lemma digit_char_simps:
  assumes "k < 10"
  shows "is_digit (digit_char k)" "digit_val (digit_char k) = int k"
    "in_range lo hi (digit_char k) \<longleftrightarrow> (of_char lo :: nat) \<le> 48 + k \<and> 48 + k \<le> (of_char hi :: nat)"
    "digit_char k \<noteq> CHR ''-''" "digit_char k \<noteq> CHR '' ''"
proof -
  have o: "(of_char (digit_char k) :: nat) = 48 + k"
    using assms by (simp add: digit_char_def)
  show "is_digit (digit_char k)" using assms by (simp add: is_digit_def o)
  show "digit_val (digit_char k) = int k" by (simp add: digit_val_def o)
  show "in_range lo hi (digit_char k) \<longleftrightarrow> (of_char lo :: nat) \<le> 48 + k \<and> 48 + k \<le> (of_char hi :: nat)"
    by (simp add: in_range_def o)
  have "(of_char (digit_char k) :: nat) \<noteq> of_char CHR ''-''"
    "(of_char (digit_char k) :: nat) \<noteq> of_char CHR '' ''"
    unfolding o by simp_all
  then show "digit_char k \<noteq> CHR ''-''" "digit_char k \<noteq> CHR '' ''" by auto
qed

lemma digit_char_eq:
  assumes "k < 10" "j < 10"
  shows "digit_char k = digit_char j \<longleftrightarrow> k = j"
proof
  assume "digit_char k = digit_char j"
  then have "(of_char (digit_char k) :: nat) = of_char (digit_char j)" by simp
  then show "k = j" using assms by (simp add: digit_char_def)
qed simp

lemma digit_char_literals:
  "CHR ''0'' = digit_char 0" "CHR ''1'' = digit_char 1" "CHR ''3'' = digit_char 3"
  by code_simp+

lemma replicate_small:
  "replicate 3 c = [c, c, c]" "replicate 2 c = [c, c]" "replicate (Suc 0) c = [c]"
  by (simp_all add: numeral_3_eq_3 numeral_2_eq_2)

lemma pad_lengths:
  "4 - Suc 0 = (3::nat)" "4 - Suc (Suc 0) = (2::nat)" "4 - Suc (Suc (Suc 0)) = Suc 0"
  "4 - Suc (Suc (Suc (Suc 0))) = (0::nat)" "2 - Suc 0 = Suc 0" "2 - Suc (Suc 0) = (0::nat)"
  by simp_all

lemma str_nat_digits:
  "n < 10 \<Longrightarrow> str_nat n = [digit_char n]"
  "10 \<le> n \<Longrightarrow> n < 100 \<Longrightarrow> str_nat n = [digit_char (n div 10), digit_char (n mod 10)]"
  "100 \<le> n \<Longrightarrow> n < 1000 \<Longrightarrow>
     str_nat n = [digit_char (n div 100), digit_char (n div 10 mod 10), digit_char (n mod 10)]"
  "1000 \<le> n \<Longrightarrow> n < 10000 \<Longrightarrow>
     str_nat n = [digit_char (n div 1000), digit_char (n div 100 mod 10),
                  digit_char (n div 10 mod 10), digit_char (n mod 10)]"
proof -
  have step: "str_nat k = str_nat (k div 10) @ [digit_char (k mod 10)]" if "10 \<le> k" for k
    using that by (subst str_nat.simps) simp
  show 1: "str_nat k = [digit_char k]" if "k < 10" for k
    using that by (subst str_nat.simps) simp
  show 2: "str_nat k = [digit_char (k div 10), digit_char (k mod 10)]"
    if "10 \<le> k" "k < 100" for k
  proof -
    from that have "k div 10 < 10" by simp
    from 1[OF this] step[OF that(1)] show ?thesis by simp
  qed
  show 3: "str_nat k = [digit_char (k div 100), digit_char (k div 10 mod 10), digit_char (k mod 10)]"
    if "100 \<le> k" "k < 1000" for k
  proof -
    from that have "10 \<le> k div 10" "k div 10 < 100" "10 \<le> k" by simp_all
    from 2[OF this(1,2)] step[OF this(3)] show ?thesis by (simp add: div_mult2_eq[symmetric])
  qed
  show "str_nat n = [digit_char (n div 1000), digit_char (n div 100 mod 10),
                  digit_char (n div 10 mod 10), digit_char (n mod 10)]"
    if "1000 \<le> n" "n < 10000"
  proof -
    from that have "100 \<le> n div 10" "n div 10 < 1000" "10 \<le> n" by simp_all
    from 3[OF this(1,2)] step[OF this(3)] show ?thesis by (simp add: div_mult2_eq[symmetric])
  qed
qed

lemma str_nat_2:
  assumes "n < 100"
  shows "zero_pad 2 (str_nat n) = [digit_char (n div 10), digit_char (n mod 10)]"
proof (cases "n < 10")
  case True
  then show ?thesis
    by (simp add: str_nat_digits(1) zero_pad_def digit_char_literals replicate_small)
next
  case False
  with assms show ?thesis by (simp add: str_nat_digits(2) zero_pad_def)
qed

lemma digit_char_is:
  assumes "k < 10"
  shows "digit_char k = CHR ''0'' \<longleftrightarrow> k = 0" "digit_char k = CHR ''1'' \<longleftrightarrow> k = 1"
    "digit_char k = CHR ''3'' \<longleftrightarrow> k = 3"
  using assms by (simp_all add: digit_char_literals digit_char_eq)

lemma of_char_literals:
  "(of_char CHR ''0'' :: nat) = 48" "(of_char CHR ''1'' :: nat) = 49"
  "(of_char CHR ''2'' :: nat) = 50" "(of_char CHR ''9'' :: nat) = 57"
  by simp_all

lemma match_m_digits:
  assumes "m1 < 10" "m0 < 10" "1 \<le> 10 * m1 + m0" "10 * m1 + m0 \<le> 12"
  shows "\<exists>alts. match_m (digit_char m1 # digit_char m0 # rest)
           = (int (10 * m1 + m0), rest) # alts"
proof -
  from assms consider "m1 = 0" "1 \<le> m0" | "m1 = 1" "m0 \<le> 2" by linarith
  then show ?thesis
  proof cases
    case 1
    then show ?thesis using assms(2)
      by (simp add: match_m_def digit_char_simps digit_char_is of_char_literals)
  next
    case 2
    then show ?thesis using assms(2)
      by (simp add: match_m_def digit_char_simps digit_char_is of_char_literals)
  qed
qed

lemma match_d_digits:
  assumes "d1 < 10" "d0 < 10" "1 \<le> 10 * d1 + d0" "10 * d1 + d0 \<le> 31"
  shows "\<exists>alts. match_d (digit_char d1 # digit_char d0 # rest)
           = (int (10 * d1 + d0), rest) # alts"
proof -
  from assms consider "d1 = 0" "1 \<le> d0" | "d1 = 1 \<or> d1 = 2" | "d1 = 3" "d0 \<le> 1" by linarith
  then show ?thesis
  proof cases
    case 1
    then show ?thesis using assms(2)
      by (simp add: match_d_def digit_char_simps digit_char_is of_char_literals)
  next
    case 2
    then show ?thesis using assms(2)
      by (auto simp: match_d_def digit_char_simps digit_char_is of_char_literals)
  next
    case 3
    then show ?thesis using assms(2)
      by (simp add: match_d_def digit_char_simps digit_char_is of_char_literals)
  qed
qed

lemma regex_match_digits:
  assumes y: "y3 < 10" "y2 < 10" "y1 < 10" "y0 < 10"
    and m: "m1 < 10" "m0 < 10" "1 \<le> 10 * m1 + m0" "10 * m1 + m0 \<le> 12"
    and d: "d1 < 10" "d0 < 10" "1 \<le> 10 * d1 + d0" "10 * d1 + d0 \<le> 31"
  shows "\<exists>alts. regex_match
           ([digit_char y3, digit_char y2, digit_char y1, digit_char y0] @ ''-''
             @ [digit_char m1, digit_char m0] @ ''-'' @ [digit_char d1, digit_char d0])
         = ((int (1000 * y3 + 100 * y2 + 10 * y1 + y0), int (10 * m1 + m0),
             int (10 * d1 + d0)), []) # alts"
proof -
  obtain am where am: "match_m (digit_char m1 # digit_char m0 # CHR ''-''
        # [digit_char d1, digit_char d0])
      = (int (10 * m1 + m0), CHR ''-'' # [digit_char d1, digit_char d0]) # am"
    using match_m_digits[OF m] by blast
  obtain ad where ad: "match_d (digit_char d1 # digit_char d0 # [])
      = (int (10 * d1 + d0), []) # ad"
    using match_d_digits[OF d] by blast
  show ?thesis
    using y by (simp add: regex_match_def digit_char_simps am ad)
qed


lemma decimal_digits:
  fixes n :: nat
  shows "1000 * (n div 1000) + 100 * (n div 100 mod 10) + 10 * (n div 10 mod 10) + n mod 10 = n"
proof -
  have a: "n = 10 * (n div 10) + n mod 10" by simp
  have "n div 10 = 10 * (n div 10 div 10) + n div 10 mod 10" by simp
  then have b: "n div 10 = 10 * (n div 100) + n div 10 mod 10"
    by (simp add: div_mult2_eq[symmetric])
  have "n div 100 = 10 * (n div 100 div 10) + n div 100 mod 10" by simp
  then have c: "n div 100 = 10 * (n div 1000) + n div 100 mod 10"
    by (simp add: div_mult2_eq[symmetric])
  from a b c show ?thesis by linarith
qed

text \<open>A printed date of a year from 1000 on reads back as the date.\<close>

lemma strptime_strftime:
  assumes v: "valid_date dt" and mid: "dt = midnight (year dt) (month dt) (day dt)"
    and y: "1000 \<le> year dt"
  shows "strptime (strftime dt) = Inr dt"
proof -
  note vd = valid_dateD[OF v]
  define n where "n = nat (year dt)"
  define k where "k = nat (month dt)"
  define j where "j = nat (day dt)"
  have n: "n < 10000" "int n = year dt" "1000 \<le> n" using vd(1,2) y by (simp_all add: n_def)
  have k: "1 \<le> k" "k \<le> 12" "int k = month dt" using vd(3,4) by (simp_all add: k_def)
  have j: "1 \<le> j" "j \<le> 31" "int j = day dt"
    using vd(5,6) days_in_month_le_31[OF vd(3,4), of "year dt"] by (simp_all add: j_def)
  have s: "str_int (year dt) = str_nat n" "str_int (month dt) = str_nat k"
    "str_int (day dt) = str_nat j"
    using vd(1,3,5) by (simp_all add: str_int_def n_def k_def j_def)
  have f: "strftime dt =
      [digit_char (n div 1000), digit_char (n div 100 mod 10), digit_char (n div 10 mod 10),
       digit_char (n mod 10)] @ ''-'' @ [digit_char (k div 10), digit_char (k mod 10)] @ ''-''
       @ [digit_char (j div 10), digit_char (j mod 10)]"
    using n(1,3) k(2) j(2) by (simp add: strftime_def s str_nat_digits(4) str_nat_2)
  have dy: "n div 1000 < 10" "n div 100 mod 10 < 10" "n div 10 mod 10 < 10" "n mod 10 < 10"
    using n(1) by simp_all
  have dk: "k div 10 < 10" "k mod 10 < 10" "1 \<le> 10 * (k div 10) + k mod 10"
    "10 * (k div 10) + k mod 10 \<le> 12"
    using k(1,2) by simp_all
  have dj: "j div 10 < 10" "j mod 10 < 10" "1 \<le> 10 * (j div 10) + j mod 10"
    "10 * (j div 10) + j mod 10 \<le> 31"
    using j(1,2) by simp_all
  obtain alts where "regex_match (strftime dt)
      = ((int (1000 * (n div 1000) + 100 * (n div 100 mod 10) + 10 * (n div 10 mod 10) + n mod 10),
          int (10 * (k div 10) + k mod 10), int (10 * (j div 10) + j mod 10)), []) # alts"
    unfolding f using regex_match_digits[OF dy dk dj] by blast
  then have "regex_match (strftime dt) = ((year dt, month dt, day dt), []) # alts"
    by (simp only: decimal_digits mult_div_mod_eq n(2) k(3) j(3))
  then have "strptime (strftime dt) = Inr (midnight (year dt) (month dt) (day dt))"
    using v by (simp add: strptime_def valid_date_def)
  with mid show ?thesis by simp
qed

text \<open>
  A printed date of a year below 1000 has fewer than four digits before the first dash
  and is refused; so a printed date never reads back as another date.
\<close>

lemma strptime_strftime_short:
  assumes v: "valid_date dt" and y: "year dt < 1000"
  shows "strptime (strftime dt) = Inl ValueError"
proof -
  note vd = valid_dateD[OF v]
  define n where "n = nat (year dt)"
  define k where "k = nat (month dt)"
  have n: "n < 1000" using y by (simp add: n_def)
  have k: "k < 100" using vd(4) by (simp add: k_def)
  have s: "str_int (year dt) = str_nat n" "str_int (month dt) = str_nat k"
    using vd(1,3) by (simp_all add: str_int_def n_def k_def)
  have pm: "zero_pad 2 (str_nat k) = [digit_char (k div 10), digit_char (k mod 10)]"
    by (rule str_nat_2[OF k])
  have nd: "\<not> is_digit CHR ''-''" by (simp add: is_digit_def)
  have "match_Y (strftime dt) = []"
  proof -
    consider "n < 10" | "10 \<le> n" "n < 100" | "100 \<le> n" by linarith
    then show ?thesis
    proof cases
      case 1
      then show ?thesis by (simp add: strftime_def s pm str_nat_digits(1) nd)
    next
      case 2
      then show ?thesis by (simp add: strftime_def s pm str_nat_digits(2) nd)
    next
      case 3
      with n show ?thesis by (simp add: strftime_def s pm str_nat_digits(3) nd)
    qed
  qed
  then show ?thesis by (simp add: strptime_def regex_match_def)
qed

lemma strptime_strftime_unique:
  assumes v: "valid_date dt" and mid: "dt = midnight (year dt) (month dt) (day dt)"
    and r: "strptime (strftime dt) = Inr x"
  shows "x = dt"
proof (cases "1000 \<le> year dt")
  case True
  from strptime_strftime[OF v mid True] r show ?thesis by simp
next
  case False
  then have "year dt < 1000" by simp
  from strptime_strftime_short[OF v this] r show ?thesis by simp
qed

section \<open>Formatting a day count\<close>

lemma format_int_Inr:
  "format_int i = Inr s \<longleftrightarrow> \<bar>i\<bar> < 10 ^ MAX_STR_DIGITS \<and> s = str_int i"
  by (auto simp: format_int_def)

lemma format_int_Inl:
  "format_int i = Inl e \<longleftrightarrow> 10 ^ MAX_STR_DIGITS \<le> \<bar>i\<bar> \<and> e = ValueError"
  by (auto simp: format_int_def)

lemma small_printable:
  fixes i :: int
  assumes "\<bar>i\<bar> \<le> 1000000000"
  shows "\<bar>i\<bar> < 10 ^ MAX_STR_DIGITS"
proof -
  have "(10::int) ^ 10 \<le> 10 ^ MAX_STR_DIGITS"
    by (rule power_increasing) (simp_all add: MAX_STR_DIGITS_def)
  moreover have "(10::int) ^ 10 = 10000000000" by simp
  ultimately show ?thesis using assms by linarith
qed

lemma format_int_small:
  "\<bar>i\<bar> \<le> 1000000000 \<Longrightarrow> format_int i = Inr (str_int i)"
  using small_printable[of i] by (simp add: format_int_def)

lemma format_int_limit:
  "format_int (10 ^ MAX_STR_DIGITS) = Inl ValueError"
  "format_int (- (10 ^ MAX_STR_DIGITS)) = Inl ValueError"
  by (simp_all add: format_int_def)

section \<open>Utility and plant patents: \<^const>\<open>calculate_expiry\<close>\<close>

text \<open>
  The outcome of \<^const>\<open>calculate_expiry\<close> once the filing date, the baseline and the
  adjusted date are there: a day count that cannot be printed fails, then the
  terminal-disclaimer date is read and compared.
\<close>

lemma calculate_expiry_eq:
  assumes "strptime f = Inr d" and "add_relativedelta_years d 20 = Inr b"
    and "add_timedelta_days b (pta + pte) = Inr a"
  shows "calculate_expiry f pta pte td now =
     (if \<not> (\<bar>pta\<bar> < 10 ^ MAX_STR_DIGITS \<and> \<bar>pte\<bar> < 10 ^ MAX_STR_DIGITS) then Inl ValueError
      else
        let rsn = ''20 years from filing''
                    @ (if pta \<noteq> 0 then '' + '' @ str_int pta @ '' days PTA'' else [])
                    @ (if pte \<noteq> 0 then '' + '' @ str_int pte @ '' days PTE'' else []);
            res = (\<lambda>x s. \<lparr>expiry = strftime x, reason = s, is_active = dt_less now x,
                            baseline_expiry = strftime b, pta_days = pta, pte_days = pte,
                            calculated_expiry = strftime x\<rparr>)
        in case td of
             None \<Rightarrow> Inr (res a rsn)
           | Some s \<Rightarrow>
               if s = [] then Inr (res a rsn)
               else (case strptime s of
                       Inl e \<Rightarrow> Inl e
                     | Inr t \<Rightarrow>
                         if dt_less t a
                         then Inr (res t ''Terminal Disclaimer (expires with linked patent)'')
                         else Inr (res a rsn)))"
proof -
  have z: "(0::int) < 10 ^ MAX_STR_DIGITS" by simp
  consider "10 ^ MAX_STR_DIGITS \<le> \<bar>pta\<bar>"
    | "\<bar>pta\<bar> < 10 ^ MAX_STR_DIGITS" "10 ^ MAX_STR_DIGITS \<le> \<bar>pte\<bar>"
    | "\<bar>pta\<bar> < 10 ^ MAX_STR_DIGITS" "\<bar>pte\<bar> < 10 ^ MAX_STR_DIGITS"
    by linarith
  then show ?thesis
  proof cases
    case 1
    with z have "0 < \<bar>pta\<bar>" by linarith
    then have "pta \<noteq> 0" by simp
    with 1 show ?thesis
      by (simp add: calculate_expiry_def assms format_int_def)
  next
    case 2
    with z have "0 < \<bar>pte\<bar>" by linarith
    then have "pte \<noteq> 0" by simp
    with 2 show ?thesis
      by (simp add: calculate_expiry_def assms format_int_def Let_def)
  next
    case 3
    then show ?thesis
      by (simp add: calculate_expiry_def assms format_int_def Let_def
            split: option.splits sum.splits)
  qed
qed

text \<open>What a returned result was computed from.\<close>

lemma calculate_expiry_Inr:
  assumes "calculate_expiry f pta pte td now = Inr r"
  obtains d b a where "strptime f = Inr d" "add_relativedelta_years d 20 = Inr b"
    "add_timedelta_days b (pta + pte) = Inr a"
    "\<bar>pta\<bar> < 10 ^ MAX_STR_DIGITS" "\<bar>pte\<bar> < 10 ^ MAX_STR_DIGITS"
proof -
  from assms obtain d where d: "strptime f = Inr d"
    by (cases "strptime f") (simp_all add: calculate_expiry_def)
  from assms d obtain b where b: "add_relativedelta_years d 20 = Inr b"
    by (cases "add_relativedelta_years d 20") (simp_all add: calculate_expiry_def)
  from assms d b obtain a where a: "add_timedelta_days b (pta + pte) = Inr a"
    by (cases "add_timedelta_days b (pta + pte)") (simp_all add: calculate_expiry_def)
  from assms have "\<bar>pta\<bar> < 10 ^ MAX_STR_DIGITS \<and> \<bar>pte\<bar> < 10 ^ MAX_STR_DIGITS"
    unfolding calculate_expiry_eq[OF d b a] by (simp split: if_splits)
  with d b a show thesis by (blast intro: that)
qed

text \<open>
  Claim C1, as the code has it. For every filing date string that parses to a date \<open>d\<close>
  of a year up to 9979, with both day counts 0 and no terminal disclaimer,
  \<^const>\<open>calculate_expiry\<close> returns a result whose \<^const>\<open>baseline_expiry\<close> prints \<open>d\<close>
  twenty calendar years later, month and day kept, except that a 29 February whose target
  year is not a leap year becomes 28 February; \<^const>\<open>calculated_expiry\<close> and
  \<^const>\<open>expiry\<close> are the same string. When the target year has four digits (a filing
  year from 980 on) the string reads back as that date.
\<close>

theorem C1_baseline_twenty_years:
  assumes "strptime f = Inr d" and "year d \<le> 9979"
  shows "\<exists>r b. calculate_expiry f 0 0 None now = Inr r
           \<and> b = midnight (year d + 20) (month d)
                    (if month d = 2 \<and> day d = 29 \<and> \<not> isleap (year d + 20)
                     then 28 else day d)
           \<and> baseline_expiry r = strftime b
           \<and> (980 \<le> year d \<longrightarrow> strptime (baseline_expiry r) = Inr b)
           \<and> calculated_expiry r = baseline_expiry r \<and> expiry r = baseline_expiry r"
proof -
  note v = strptime_Inr(1)[OF assms(1)]
  note vd = valid_dateD[OF v]
  define b where "b = d\<lparr>year := year d + 20,
                      day := min (day d) (days_in_month (year d + 20) (month d))\<rparr>"
  have yr: "1 \<le> year d + 20" "year d + 20 \<le> 9999" using vd(1) assms(2) by simp_all
  then have base: "add_relativedelta_years d 20 = Inr b"
    by (simp add: add_relativedelta_years_eq[OF v] b_def)
  have vb: "valid_date b" unfolding b_def by (rule valid_date_clamped[OF v yr])
  then have adj: "add_timedelta_days b (0 + 0) = Inr b" by (simp add: add_timedelta_days_zero)
  have "hour d = 0 \<and> minute d = 0 \<and> second d = 0 \<and> microsecond d = 0"
    using strptime_Inr(2)[OF assms(1)] by (simp only: midnight_iff)
  then have b': "b = midnight (year d + 20) (month d)
                    (if month d = 2 \<and> day d = 29 \<and> \<not> isleap (year d + 20)
                     then 28 else day d)"
    unfolding b_def clamp_feb29[OF vd(3,4,5,6)] by (cases d) (simp add: midnight_def)
  have mb: "b = midnight (year b) (month b) (day b)"
    by (subst (1) b') (simp add: b' midnight_def)
  have yb: "year b = year d + 20" by (simp add: b_def)
  have r: "calculate_expiry f 0 0 None now =
      Inr \<lparr>expiry = strftime b, reason = ''20 years from filing'',
            is_active = dt_less now b, baseline_expiry = strftime b, pta_days = 0,
            pte_days = 0, calculated_expiry = strftime b\<rparr>"
    by (simp add: calculate_expiry_eq[OF assms(1) base adj])
  have rb: "strptime (strftime b) = Inr b" if "980 \<le> year d"
    by (rule strptime_strftime[OF vb mb]) (use that yb in simp)
  from r rb b' show ?thesis by simp
qed

lemma strptime_2080_02_29: "strptime ''2080-02-29'' = Inr (midnight 2080 2 29)"
  by code_simp

lemma strftime_2100_02_28: "strftime (midnight 2100 2 28) = ''2100-02-28''"
  by code_simp

theorem C1_baseline_twenty_years_witness:
  "\<exists>r. calculate_expiry ''2080-02-29'' 0 0 None (midnight 2026 11 4) = Inr r
       \<and> baseline_expiry r = ''2100-02-28'' \<and> calculated_expiry r = ''2100-02-28''
       \<and> strptime (baseline_expiry r) = Inr (midnight 2100 2 28)"
proof -
  have y: "year (midnight 2080 2 29) \<le> 9979" "year (midnight 2080 2 29) + 20 = 2100"
    "month (midnight 2080 2 29) = 2" "day (midnight 2080 2 29) = 29"
    and y': "980 \<le> year (midnight 2080 2 29)"
    by (simp_all add: midnight_def)
  have l: "\<not> isleap 2100" by (simp add: isleap_def)
  from C1_baseline_twenty_years[OF strptime_2080_02_29 y(1), of "midnight 2026 11 4"]
  show ?thesis unfolding y using l strftime_2100_02_28 y' by auto
qed

lemma calculate_expiry_year_overflow:
  assumes "strptime f = Inr d" and "9979 < year d"
  shows "calculate_expiry f pta pte td now = Inl ValueError"
  using assms(2)
  by (simp add: calculate_expiry_def assms(1) add_relativedelta_years_eq[OF strptime_Inr(1)[OF assms(1)]])

lemma strptime_9980_02_29: "strptime ''9980-02-29'' = Inr (midnight 9980 2 29)"
  by code_simp

text \<open>
  Claim C1 as stated fails at the valid filing date 9980-02-29: the year 10000 is no
  \<^verbatim>\<open>datetime\<close>, the year shift raises \<^verbatim>\<open>ValueError\<close> and no baseline is returned.
\<close>

theorem C1_counterexample:
  "strptime ''9980-02-29'' = Inr (midnight 9980 2 29) \<and>
   calculate_expiry ''9980-02-29'' 0 0 None (midnight 2026 11 4) = Inl ValueError"
  using calculate_expiry_year_overflow[OF strptime_9980_02_29] strptime_9980_02_29 by (simp add: midnight_def)

text \<open>The final date of a returned result.\<close>

lemma calculate_expiry_final:
  assumes "calculate_expiry f pta pte td now = Inr r"
  obtains fd where "valid_date fd" "fd = midnight (year fd) (month fd) (day fd)"
    "expiry r = strftime fd" "calculated_expiry r = strftime fd" "is_active r = dt_less now fd"
proof -
  from assms obtain d b a where d: "strptime f = Inr d"
    and b: "add_relativedelta_years d 20 = Inr b"
    and a: "add_timedelta_days b (pta + pte) = Inr a"
    and p: "\<bar>pta\<bar> < 10 ^ MAX_STR_DIGITS" "\<bar>pte\<bar> < 10 ^ MAX_STR_DIGITS"
    by (rule calculate_expiry_Inr)
  note md = strptime_Inr[OF d]
  have "hour d = 0 \<and> minute d = 0 \<and> second d = 0 \<and> microsecond d = 0"
    using md(2) by (simp only: midnight_iff)
  with add_relativedelta_years_Inr[OF md(1) b] add_timedelta_days_Inr[OF a]
  have ma: "a = midnight (year a) (month a) (day a)" by (simp add: midnight_iff)
  have va: "valid_date a" by (rule add_timedelta_days_valid[OF a])
  from assms p consider
      "r = \<lparr>expiry = strftime a, reason = reason r, is_active = dt_less now a,
            baseline_expiry = strftime b, pta_days = pta, pte_days = pte,
            calculated_expiry = strftime a\<rparr>"
    | s t where "td = Some s" "strptime s = Inr t"
      "r = \<lparr>expiry = strftime t, reason = reason r, is_active = dt_less now t,
            baseline_expiry = strftime b, pta_days = pta, pte_days = pte,
            calculated_expiry = strftime t\<rparr>"
    unfolding calculate_expiry_eq[OF d b a]
    by (auto simp: Let_def split: sum.splits option.splits if_splits)
  then show thesis
  proof cases
    case 1
    show thesis by (rule that[OF va ma]) (subst 1, simp)+
  next
    case 2
    show thesis by (rule that[OF strptime_Inr[OF 2(2)]]) (subst 2(3), simp)+
  qed
qed


lemma strptime_2000_01_01: "strptime ''2000-01-01'' = Inr (midnight 2000 1 1)"
  by code_simp

lemma strptime_2020_01_01: "strptime ''2020-01-01'' = Inr (midnight 2020 1 1)"
  by code_simp



lemma baseline_2000_01_01: "add_relativedelta_years (midnight 2000 1 1) 20 = Inr (midnight 2020 1 1)"
  by code_simp



lemma strftime_2020_01_01: "strftime (midnight 2020 1 1) = ''2020-01-01''"
  by code_simp




text \<open>
  Claim C5. Whenever \<^const>\<open>calculate_expiry\<close> returns a result and the terminal disclaimer
  did not override it (none was supplied, or the reason is not the terminal-disclaimer
  sentence), the reason is exactly \<^verbatim>\<open>20 years from filing\<close>, followed by
  \<^verbatim>\<open> + {pta_days} days PTA\<close> iff \<open>pta_days\<close> is nonzero, followed by
  \<^verbatim>\<open> + {pte_days} days PTE\<close> iff \<open>pte_days\<close> is nonzero: the PTA clause always first.
\<close>

theorem C5_reason_string:
  assumes "calculate_expiry f pta pte td now = Inr r"
    and "td = None \<or> reason r \<noteq> ''Terminal Disclaimer (expires with linked patent)''"
  shows "reason r = ''20 years from filing''
           @ (if pta \<noteq> 0 then '' + '' @ str_int pta @ '' days PTA'' else [])
           @ (if pte \<noteq> 0 then '' + '' @ str_int pte @ '' days PTE'' else [])"
proof -
  from assms(1) obtain d b a where d: "strptime f = Inr d"
    and b: "add_relativedelta_years d 20 = Inr b"
    and a: "add_timedelta_days b (pta + pte) = Inr a"
    and p: "\<bar>pta\<bar> < 10 ^ MAX_STR_DIGITS" "\<bar>pte\<bar> < 10 ^ MAX_STR_DIGITS"
    by (rule calculate_expiry_Inr)
  from assms p show ?thesis
    unfolding calculate_expiry_eq[OF d b a]
    by (auto simp: Let_def split: sum.splits option.splits if_splits)
qed

lemma plus_102_days: "add_timedelta_days (midnight 2020 1 1) 102 = Inr (midnight 2020 4 12)"
  by code_simp

theorem C5_reason_string_witness:
  "\<exists>r. calculate_expiry ''2000-01-01'' 90 12 None (midnight 2026 11 4) = Inr r
       \<and> reason r = ''20 years from filing + 90 days PTA + 12 days PTE''"
proof -
  have p: "\<bar>90::int\<bar> < 10 ^ MAX_STR_DIGITS" "\<bar>12::int\<bar> < 10 ^ MAX_STR_DIGITS"
    by (rule small_printable, simp)+
  have "add_timedelta_days (midnight 2020 1 1) (90 + 12) = Inr (midnight 2020 4 12)"
    using plus_102_days by simp
  from calculate_expiry_eq[OF strptime_2000_01_01 baseline_2000_01_01 this] p
  obtain r where r: "calculate_expiry ''2000-01-01'' 90 12 None (midnight 2026 11 4) = Inr r"
    by (simp add: Let_def)
  have s: "str_int 90 = ''90''" "str_int 12 = ''12''" by code_simp+
  from C5_reason_string[OF r] s have
    "reason r = ''20 years from filing + 90 days PTA + 12 days PTE''" by simp
  with r show ?thesis by blast
qed

section \<open>Design patents: \<^const>\<open>calculate_design_patent_expiry\<close>\<close>

lemma strptime_cutoff: "strptime ''2015-05-13'' = Inr (midnight 2015 5 13)"
  by code_simp

lemma dt_ge_cutoff:
  assumes "fd = midnight (year fd) (month fd) (day fd)"
  shows "dt_ge fd (midnight 2015 5 13) \<longleftrightarrow>
     2015 < year fd \<or> (year fd = 2015 \<and> (5 < month fd \<or> (month fd = 5 \<and> 13 \<le> day fd)))"
  by (subst (1) assms) (auto simp: dt_ge_def dt_less_def dt_fields_def midnight_def)

lemma design_expiry_eq:
  assumes g: "strptime g = Inr gd" and f: "strptime f = Inr fd"
  shows "calculate_design_patent_expiry g f now =
    (let n = (if 2015 < year fd \<or> (year fd = 2015 \<and> (5 < month fd \<or> (month fd = 5 \<and> 13 \<le> day fd)))
              then 15 else 14);
         b = gd\<lparr>year := year gd + n,
                 day := min (day gd) (days_in_month (year gd + n) (month gd))\<rparr>
     in if year gd + n \<le> 9999
        then Inr \<lparr>expiry = strftime b,
                  reason = (if n = 15 then ''15 years from grant date''
                            else ''14 years from grant date''),
                  is_active = dt_less now b, baseline_expiry = strftime b,
                  pta_days = 0, pte_days = 0, calculated_expiry = strftime b\<rparr>
        else Inl ValueError)"
proof -
  note vg = strptime_Inr(1)[OF g]
  have y1: "1 \<le> year gd" by (rule valid_dateD(1)[OF vg])
  have s15: "str_int 15 = ''15''" and s14: "str_int 14 = ''14''" by code_simp+
  have f15: "format_int 15 = Inr ''15''" and f14: "format_int 14 = Inr ''14''"
    by (simp_all add: format_int_small s15 s14)
  show ?thesis
    using y1
    by (simp add: calculate_design_patent_expiry_def g f strptime_cutoff Let_def
          dt_ge_cutoff[OF strptime_Inr(2)[OF f]] add_relativedelta_years_eq[OF vg] f15 f14)
qed

lemma design_expiry_final:
  assumes "calculate_design_patent_expiry g f now = Inr r"
  obtains fd where "valid_date fd" "fd = midnight (year fd) (month fd) (day fd)"
    "expiry r = strftime fd" "calculated_expiry r = strftime fd" "is_active r = dt_less now fd"
proof -
  from assms obtain gd fd where g: "strptime g = Inr gd" and f: "strptime f = Inr fd"
    by (auto simp: calculate_design_patent_expiry_def split: sum.splits)
  define n :: int where "n = (if 2015 < year fd \<or> (year fd = 2015 \<and> (5 < month fd
                  \<or> (month fd = 5 \<and> 13 \<le> day fd))) then 15 else 14)"
  define b where "b = gd\<lparr>year := year gd + n,
                        day := min (day gd) (days_in_month (year gd + n) (month gd))\<rparr>"
  have "calculate_design_patent_expiry g f now =
     (if year gd + n \<le> 9999
      then Inr \<lparr>expiry = strftime b,
                reason = (if n = 15 then ''15 years from grant date''
                          else ''14 years from grant date''),
                is_active = dt_less now b, baseline_expiry = strftime b,
                pta_days = 0, pte_days = 0, calculated_expiry = strftime b\<rparr>
      else Inl ValueError)"
    unfolding design_expiry_eq[OF g f] n_def b_def Let_def ..
  with assms have r: "expiry r = strftime b" "calculated_expiry r = strftime b"
    "is_active r = dt_less now b" and yr: "year gd + n \<le> 9999"
    by (auto split: if_splits)
  note vg = strptime_Inr(1)[OF g]
  have "1 \<le> year gd + n" using valid_dateD(1)[OF vg] by (simp add: n_def)
  then have vb: "valid_date b" unfolding b_def by (rule valid_date_clamped[OF vg _ yr])
  have "hour gd = 0 \<and> minute gd = 0 \<and> second gd = 0 \<and> microsecond gd = 0"
    using strptime_Inr(2)[OF g] by (simp only: midnight_iff)
  then have mb: "b = midnight (year b) (month b) (day b)"
    by (subst midnight_iff) (simp add: b_def)
  show thesis by (rule that[OF vb mb r])
qed

text \<open>
  Claim C4. For every grant date and filing date that parse, the term is 15 years when the
  filing date is 2015-05-13 or later and 14 years otherwise; the grant date plays no part
  in the choice. The outcome is the grant date shifted by that term (day cut to the
  month's length) with \<open>pta_days = 0\<close> and \<open>pte_days = 0\<close>, or \<^verbatim>\<open>ValueError\<close> when the
  grant year plus the term exceeds 9999.
\<close>

theorem C4_design_term:
  assumes "strptime g = Inr gd" and "strptime f = Inr fd"
  shows "calculate_design_patent_expiry g f now =
    (let n = (if 2015 < year fd \<or> (year fd = 2015 \<and> (5 < month fd \<or> (month fd = 5 \<and> 13 \<le> day fd)))
              then 15 else 14);
         b = gd\<lparr>year := year gd + n,
                 day := min (day gd) (days_in_month (year gd + n) (month gd))\<rparr>
     in if year gd + n \<le> 9999
        then Inr \<lparr>expiry = strftime b,
                  reason = (if n = 15 then ''15 years from grant date''
                            else ''14 years from grant date''),
                  is_active = dt_less now b, baseline_expiry = strftime b,
                  pta_days = 0, pte_days = 0, calculated_expiry = strftime b\<rparr>
        else Inl ValueError)"
  by (rule design_expiry_eq[OF assms])

lemma strptime_2016_02_29: "strptime ''2016-02-29'' = Inr (midnight 2016 2 29)"
  by code_simp

lemma strptime_2015_05_12: "strptime ''2015-05-12'' = Inr (midnight 2015 5 12)"
  by code_simp

lemma strftime_2031_02_28: "strftime (midnight 2031 2 28) = ''2031-02-28''"
  by code_simp

lemma strftime_2030_02_28: "strftime (midnight 2030 2 28) = ''2030-02-28''"
  by code_simp

theorem C4_design_term_witness:
  "calculate_design_patent_expiry ''2016-02-29'' ''2015-05-13'' (midnight 2026 11 4)
     = Inr \<lparr>expiry = ''2031-02-28'', reason = ''15 years from grant date'', is_active = True,
            baseline_expiry = ''2031-02-28'', pta_days = 0, pte_days = 0,
            calculated_expiry = ''2031-02-28''\<rparr>
   \<and> calculate_design_patent_expiry ''2016-02-29'' ''2015-05-12'' (midnight 2026 11 4)
     = Inr \<lparr>expiry = ''2030-02-28'', reason = ''14 years from grant date'', is_active = True,
            baseline_expiry = ''2030-02-28'', pta_days = 0, pte_days = 0,
            calculated_expiry = ''2030-02-28''\<rparr>"
proof -
  have d: "days_in_month 2031 2 = 28" "days_in_month 2030 2 = 28" by code_simp+
  have b: "midnight 2016 2 29\<lparr>year := 2031, day := 28\<rparr> = midnight 2031 2 28"
    "midnight 2016 2 29\<lparr>year := 2030, day := 28\<rparr> = midnight 2030 2 28"
    by (simp_all add: midnight_def)
  have l: "dt_less (midnight 2026 11 4) (midnight 2031 2 28)"
    "dt_less (midnight 2026 11 4) (midnight 2030 2 28)"
    by (simp_all add: dt_less_def dt_fields_def midnight_def)
  have y: "year (midnight 2016 2 29) = 2016" "month (midnight 2016 2 29) = 2"
    "day (midnight 2016 2 29) = 29" "year (midnight 2015 5 13) = 2015"
    "month (midnight 2015 5 13) = 5" "day (midnight 2015 5 13) = 13"
    "year (midnight 2015 5 12) = 2015" "month (midnight 2015 5 12) = 5"
    "day (midnight 2015 5 12) = 12"
    by (simp_all add: midnight_def)
  show ?thesis
    using C4_design_term[OF strptime_2016_02_29 strptime_cutoff, of "midnight 2026 11 4"]
      C4_design_term[OF strptime_2016_02_29 strptime_2015_05_12, of "midnight 2026 11 4"]
    by (simp add: y d b l strftime_2031_02_28 strftime_2030_02_28 Let_def)
qed

section \<open>Maintenance fees: \<^const>\<open>calculate_maintenance_fees\<close>\<close>

lemma add_years_months_eq:
  assumes d: "1 \<le> day dt"
    and q: "month dt + months - 1 = 12 * q + (m - 1)" and m: "1 \<le> m" "m \<le> 12"
    and mid: "dt = midnight (year dt) (month dt) (day dt)"
    and c: "c_int (year dt + years + q)"
  shows "add_years_months dt years months =
     (if 1 \<le> year dt + years + q \<and> year dt + years + q \<le> 9999
      then Inr (clamp_day (year dt + years + q) m (day dt))
      else Inl ValueError)"
proof -
  have dv: "(month dt + months - 1) div 12 = q" "(month dt + months - 1) mod 12 = m - 1"
    by (rule divmod_eq[OF q]; use m in simp)+
  have upd: "dt\<lparr>year := y, month := m, day := d'\<rparr> = midnight y m d'" for y d'
    by (subst mid) (simp add: midnight_def)
  show ?thesis
    using c
    by (simp add: add_years_months_def Let_def dv monthrange_ndays_eq[OF m]
          replace_ymd_clamped[OF m d] upd clamp_day_def)
qed

lemma add_years_months_plus6:
  assumes "valid_date dt" "dt = midnight (year dt) (month dt) (day dt)"
    and "- 1000000 \<le> k" "k \<le> 1000000"
  shows "add_years_months dt k 6 =
     (if 1 \<le> year (milestone k dt) \<and> year (milestone k dt) \<le> 9999
      then Inr (milestone k dt) else Inl ValueError)"
proof (cases "month dt \<le> 6")
  case True
  have "add_years_months dt k 6 =
     (if 1 \<le> year dt + k + 0 \<and> year dt + k + 0 \<le> 9999
      then Inr (clamp_day (year dt + k + 0) (month dt + 6) (day dt)) else Inl ValueError)"
    by (rule add_years_months_eq[OF valid_dateD(5)[OF assms(1)] _ _ _ assms(2)])
       (use True valid_dateD(1,2,3)[OF assms(1)] assms(3,4) in \<open>simp_all add: c_int_def\<close>)
  with True show ?thesis by (simp add: milestone_def clamp_day_def midnight_def)
next
  case False
  have "add_years_months dt k 6 =
     (if 1 \<le> year dt + k + 1 \<and> year dt + k + 1 \<le> 9999
      then Inr (clamp_day (year dt + k + 1) (month dt - 6) (day dt)) else Inl ValueError)"
    by (rule add_years_months_eq[OF valid_dateD(5)[OF assms(1)] _ _ _ assms(2)])
       (use False valid_dateD(1,2,4)[OF assms(1)] assms(3,4) in \<open>simp_all add: c_int_def\<close>)
  with False show ?thesis by (simp add: milestone_def clamp_day_def midnight_def)
qed

lemma add_years_months_minus6:
  assumes "valid_date dt" "dt = midnight (year dt) (month dt) (day dt)"
  shows "add_years_months dt 0 (- 6) =
     (if 1 \<le> year (half_year_earlier dt) \<and> year (half_year_earlier dt) \<le> 9999
      then Inr (half_year_earlier dt) else Inl ValueError)"
proof (cases "6 < month dt")
  case True
  have "add_years_months dt 0 (- 6) =
     (if 1 \<le> year dt + 0 + 0 \<and> year dt + 0 + 0 \<le> 9999
      then Inr (clamp_day (year dt + 0 + 0) (month dt - 6) (day dt)) else Inl ValueError)"
    by (rule add_years_months_eq[OF valid_dateD(5)[OF assms(1)] _ _ _ assms(2)])
       (use True valid_dateD(1,2,4)[OF assms(1)] in \<open>simp_all add: c_int_def\<close>)
  with True show ?thesis by (simp add: half_year_earlier_def clamp_day_def midnight_def)
next
  case False
  have "add_years_months dt 0 (- 6) =
     (if 1 \<le> year dt + 0 + (- 1) \<and> year dt + 0 + (- 1) \<le> 9999
      then Inr (clamp_day (year dt + 0 + (- 1)) (month dt + 6) (day dt)) else Inl ValueError)"
    by (rule add_years_months_eq[OF valid_dateD(5)[OF assms(1)] _ _ _ assms(2)])
       (use False valid_dateD(1,2,3)[OF assms(1)] in \<open>simp_all add: c_int_def\<close>)
  with False show ?thesis by (simp add: half_year_earlier_def clamp_day_def midnight_def)
qed

lemma milestone_fields:
  "year (milestone k dt) = (if month dt \<le> 6 then year dt + k else year dt + k + 1)"
  "month (milestone k dt) = (if month dt \<le> 6 then month dt + 6 else month dt - 6)"
  by (simp_all add: milestone_def clamp_day_def midnight_def)

lemma milestone_midnight:
  "milestone k dt = midnight (year (milestone k dt)) (month (milestone k dt)) (day (milestone k dt))"
  by (simp add: milestone_def clamp_day_def midnight_def)

lemma valid_date_milestone:
  assumes "valid_date dt" "1 \<le> year (milestone k dt)" "year (milestone k dt) \<le> 9999"
  shows "valid_date (milestone k dt)"
proof -
  note v = valid_dateD[OF assms(1)]
  show ?thesis
  proof (cases "month dt \<le> 6")
    case True
    then have m: "1 \<le> month dt + 6" "month dt + 6 \<le> 12" using v(3) by simp_all
    from check_clamped[OF m v(5), of "year dt + k"] assms(2,3) True
    show ?thesis by (simp add: valid_date_def milestone_def clamp_day_def midnight_def)
  next
    case False
    then have m: "1 \<le> month dt - 6" "month dt - 6 \<le> 12" using v(4) by simp_all
    from check_clamped[OF m v(5), of "year dt + k + 1"] assms(2,3) False
    show ?thesis by (simp add: valid_date_def milestone_def clamp_day_def midnight_def)
  qed
qed

text \<open>The window of a due date that lies in the years 2..9999, with six months to spare.\<close>

lemma fee_schedule_eq:
  assumes v: "valid_date due" and mid: "due = midnight (year due) (month due) (day due)"
  shows "fee_schedule due =
     (if 1 \<le> year (half_year_earlier due) \<and> year (half_year_later due) \<le> 9999
      then Inr (window_of due) else Inl ValueError)"
proof -
  note vd = valid_dateD[OF v]
  have e: "year (half_year_earlier due) \<le> 9999" "1 \<le> year (half_year_later due)"
    using vd(1,2)
    by (simp_all add: half_year_earlier_def half_year_later_def milestone_def clamp_day_def
          midnight_def)
  show ?thesis
    using e
    by (simp add: fee_schedule_def add_years_months_minus6[OF v mid]
          add_years_months_plus6[OF v mid] window_of_def half_year_later_def)
qed


lemma milestone_window:
  assumes v: "valid_date gd" and mid: "gd = midnight (year gd) (month gd) (day gd)"
    and k: "1 \<le> k" "year gd + k \<le> 9998"
  shows "add_years_months gd k 6 = Inr (milestone k gd)"
    "fee_schedule (milestone k gd) = Inr (window_of (milestone k gd))"
proof -
  note vd = valid_dateD[OF v]
  have yr: "1 \<le> year (milestone k gd)" "year (milestone k gd) \<le> 9999"
    using vd(1) k by (simp_all add: milestone_fields)
  have kb: "- 1000000 \<le> k" "k \<le> 1000000" using vd(1) k by simp_all
  from yr show "add_years_months gd k 6 = Inr (milestone k gd)"
    by (simp add: add_years_months_plus6[OF v mid kb])
  have vm: "valid_date (milestone k gd)" by (rule valid_date_milestone[OF v yr])
  have "1 \<le> year (half_year_earlier (milestone k gd))"
    "year (half_year_later (milestone k gd)) \<le> 9999"
    using vd(1,3,4) k
    by (simp_all add: half_year_earlier_def half_year_later_def milestone_fields
          clamp_day_def midnight_def)
  then show "fee_schedule (milestone k gd) = Inr (window_of (milestone k gd))"
    by (simp add: fee_schedule_eq[OF vm milestone_midnight])
qed

lemma maintenance_fees_eq:
  assumes g: "strptime g = Inr gd"
  shows "calculate_maintenance_fees g =
     (if year gd \<le> 9987
      then Inr \<lparr>year_3_5 = window_of (milestone 3 gd), year_7_5 = window_of (milestone 7 gd),
                year_11_5 = window_of (milestone 11 gd)\<rparr>
      else Inl ValueError)"
proof (cases "year gd \<le> 9987")
  case True
  note v = strptime_Inr[OF g]
  from True show ?thesis
    by (simp add: calculate_maintenance_fees_def g milestone_window[OF v])
next
  case False
  note v = strptime_Inr[OF g]
  note vd = valid_dateD[OF v(1)]
  show ?thesis
  proof (cases "year (milestone 11 gd) \<le> 9999")
    case no11: False
    then have "add_years_months gd 11 6 = Inl ValueError"
      by (simp add: add_years_months_plus6[OF v])
    then have "calculate_maintenance_fees g = Inl ValueError"
      by (simp add: calculate_maintenance_fees_def g add_years_months_plus6[OF v])
    with False show ?thesis by simp
  next
    case True
    with False have y: "year gd = 9988" and m: "month gd \<le> 6"
      by (simp_all add: milestone_fields split: if_splits)
    have w: "fee_schedule (milestone k gd) = Inr (window_of (milestone k gd))"
      "add_years_months gd k 6 = Inr (milestone k gd)" if "k = 3 \<or> k = 7" for k
      using milestone_window[OF v, of k] that y by auto
    have a11: "add_years_months gd 11 6 = Inr (milestone 11 gd)"
      using True vd(1) by (simp add: add_years_months_plus6[OF v] milestone_fields)
    have v11: "valid_date (milestone 11 gd)"
      using True vd(1) by (intro valid_date_milestone[OF v(1)]) (simp_all add: milestone_fields)
    have "year (half_year_later (milestone 11 gd)) = 10000"
      using y m vd(3)
      by (simp add: half_year_later_def milestone_fields)
    then have "fee_schedule (milestone 11 gd) = Inl ValueError"
      by (simp add: fee_schedule_eq[OF v11 milestone_midnight])
    then have "calculate_maintenance_fees g = Inl ValueError"
      by (simp add: calculate_maintenance_fees_def g w a11)
    with False show ?thesis by simp
  qed
qed

text \<open>
  Claim C3, as the code has it. For every grant date string that parses to a date of a
  year up to 9987, \<^const>\<open>calculate_maintenance_fees\<close> returns exactly three windows,
  due 3, 7 and 11 years and six months after the grant (day cut to the month's length);
  each window starts six calendar months before its due date (borrowing a year below
  January), ends on the due date, and its surcharge ends six calendar months after it,
  every day of the month cut to the last day of the target month.
\<close>

theorem C3_fee_windows:
  assumes "strptime g = Inr gd" and "year gd \<le> 9987"
  shows "calculate_maintenance_fees g =
     Inr \<lparr>year_3_5 = window_of (milestone 3 gd), year_7_5 = window_of (milestone 7 gd),
           year_11_5 = window_of (milestone 11 gd)\<rparr>"
  using assms(2) by (simp add: maintenance_fees_eq[OF assms(1)])

lemma strptime_2019_08_31: "strptime ''2019-08-31'' = Inr (midnight 2019 8 31)"
  by code_simp

lemma window_2023_02_28:
  "window_of (milestone 3 (midnight 2019 8 31)) =
     \<lparr>due_date = ''2023-02-28'', window_start = ''2022-08-28'',
      window_end = ''2023-02-28'', surcharge_end = ''2023-08-28''\<rparr>"
  by code_simp

lemma window_2027_02_28:
  "window_of (milestone 7 (midnight 2019 8 31)) =
     \<lparr>due_date = ''2027-02-28'', window_start = ''2026-08-28'',
      window_end = ''2027-02-28'', surcharge_end = ''2027-08-28''\<rparr>"
  by code_simp

lemma window_2031_02_28:
  "window_of (milestone 11 (midnight 2019 8 31)) =
     \<lparr>due_date = ''2031-02-28'', window_start = ''2030-08-28'',
      window_end = ''2031-02-28'', surcharge_end = ''2031-08-28''\<rparr>"
  by code_simp

theorem C3_fee_windows_witness:
  "calculate_maintenance_fees ''2019-08-31'' =
     Inr \<lparr>year_3_5 = \<lparr>due_date = ''2023-02-28'', window_start = ''2022-08-28'',
                       window_end = ''2023-02-28'', surcharge_end = ''2023-08-28''\<rparr>,
           year_7_5 = \<lparr>due_date = ''2027-02-28'', window_start = ''2026-08-28'',
                       window_end = ''2027-02-28'', surcharge_end = ''2027-08-28''\<rparr>,
           year_11_5 = \<lparr>due_date = ''2031-02-28'', window_start = ''2030-08-28'',
                        window_end = ''2031-02-28'', surcharge_end = ''2031-08-28''\<rparr>\<rparr>"
proof -
  have "year (midnight 2019 8 31) \<le> 9987" by (simp add: midnight_def)
  from C3_fee_windows[OF strptime_2019_08_31 this] show ?thesis
    by (simp only: window_2023_02_28 window_2027_02_28 window_2031_02_28)
qed

lemma strptime_9988_01_31: "strptime ''9988-01-31'' = Inr (midnight 9988 1 31)"
  by code_simp

text \<open>
  Claim C3 as stated fails at the valid grant date 9988-01-31: the surcharge end of the
  11.5-year window would fall in the year 10000, and the call raises \<^verbatim>\<open>ValueError\<close>.
\<close>

theorem C3_counterexample:
  "strptime ''9988-01-31'' = Inr (midnight 9988 1 31) \<and>
   calculate_maintenance_fees ''9988-01-31'' = Inl ValueError"
  using maintenance_fees_eq[OF strptime_9988_01_31] strptime_9988_01_31
  by (simp add: midnight_def)

lemma days_in_month_simps:
  "days_in_month y 8 = 31" "days_in_month y 2 = (if isleap y then 29 else 28)"
  by (simp_all add: days_in_month_def DAYS_IN_MONTH_def)

lemma not_leap_plus_11: "isleap y \<Longrightarrow> \<not> isleap (y + 11)"
proof -
  assume "isleap y"
  then have "y mod 4 = 0" by (simp add: isleap_def)
  then have "(y + 11) mod 4 \<noteq> 0" by arith
  then show ?thesis by (simp add: isleap_def)
qed

text \<open>
  Claim C10. Clamped month addition does not round-trip, and the window start comes from
  the clamped due date. For every grant on a 29 February (year up to 9987) the 11.5-year
  due date, moved six months back and six months forward again, is a different date. For
  every grant on a 31 August the 11.5-year window start has a day of the month smaller
  than 31 and is not the grant date moved eleven years on.
\<close>

theorem C10_window_start_from_clamped_due:
  assumes "strptime g = Inr d" and "year d \<le> 9987"
  shows "(month d = 2 \<and> day d = 29 \<longrightarrow>
            (\<exists>due ws back. add_years_months d 11 6 = Inr due
                \<and> add_years_months due 0 (- 6) = Inr ws
                \<and> add_years_months ws 0 6 = Inr back \<and> back \<noteq> due))
       \<and> (month d = 8 \<and> day d = 31 \<longrightarrow>
            (\<exists>due ws direct fees. add_years_months d 11 6 = Inr due
                \<and> add_years_months due 0 (- 6) = Inr ws
                \<and> calculate_maintenance_fees g = Inr fees
                \<and> window_start (year_11_5 fees) = strftime ws
                \<and> day ws < day d
                \<and> add_years_months d 11 0 = Inr direct \<and> ws \<noteq> direct))"
proof (intro conjI impI)
  note v = strptime_Inr[OF assms(1)]
  note vd = valid_dateD[OF v(1)]
  have due: "add_years_months d 11 6 = Inr (milestone 11 d)"
    using milestone_window(1)[OF v, of 11] assms(2) by simp
  {
    assume a: "month d = 2 \<and> day d = 29"
    with vd(6) have leap: "isleap (year d)"
      by (simp add: days_in_month_simps split: if_splits)
    have nl: "\<not> isleap (year d + 11)" by (rule not_leap_plus_11[OF leap])
    have m: "milestone 11 d = midnight (year d + 11) 8 29"
      using a by (simp add: milestone_def clamp_day_def days_in_month_simps)
    have e: "half_year_earlier (midnight (year d + 11) 8 29) = midnight (year d + 11) 2 28"
      using nl by (simp add: half_year_earlier_def clamp_day_def days_in_month_simps midnight_def)
    have l: "milestone 0 (midnight (year d + 11) 2 28) = midnight (year d + 11) 8 28"
      by (simp add: milestone_def clamp_day_def days_in_month_simps midnight_def)
    have v1: "valid_date (midnight (year d + 11) 8 29)"
      using vd(1) assms(2)
      by (simp add: valid_date_def check_date_fields_def midnight_def days_in_month_simps
            MINYEAR_def MAXYEAR_def)
    have v2: "valid_date (midnight (year d + 11) 2 28)"
      using vd(1) assms(2)
      by (simp add: valid_date_def check_date_fields_def midnight_def days_in_month_simps
            MINYEAR_def MAXYEAR_def)
    have mm: "midnight y' m' d' = midnight (year (midnight y' m' d')) (month (midnight y' m' d'))
        (day (midnight y' m' d'))" for y' m' d'
      by (simp add: midnight_def)
    have ws: "add_years_months (midnight (year d + 11) 8 29) 0 (- 6)
        = Inr (midnight (year d + 11) 2 28)"
      using vd(1) assms(2) by (simp add: add_years_months_minus6[OF v1 mm] e) (simp add: midnight_def)
    have bk: "add_years_months (midnight (year d + 11) 2 28) 0 6
        = Inr (midnight (year d + 11) 8 28)"
      using vd(1) assms(2) by (simp add: add_years_months_plus6[OF v2 mm] l) (simp add: midnight_def)
    have "midnight (year d + 11) 8 28 \<noteq> midnight (year d + 11) 8 29"
      by (simp add: midnight_def)
    with due ws bk
    show "\<exists>due ws back. add_years_months d 11 6 = Inr due
                \<and> add_years_months due 0 (- 6) = Inr ws
                \<and> add_years_months ws 0 6 = Inr back \<and> back \<noteq> due"
      unfolding m by blast
  }
  {
    assume a: "month d = 8 \<and> day d = 31"
    define dd where "dd = (if isleap (year d + 12) then 29 else 28 :: int)"
    have m: "milestone 11 d = midnight (year d + 12) 2 dd"
      using a by (simp add: milestone_def clamp_day_def days_in_month_simps dd_def add.commute)
    have e: "half_year_earlier (midnight (year d + 12) 2 dd) = midnight (year d + 11) 8 dd"
      by (simp add: half_year_earlier_def clamp_day_def days_in_month_simps midnight_def dd_def)
    have v1: "valid_date (midnight (year d + 12) 2 dd)"
      using vd(1) assms(2)
      by (simp add: valid_date_def check_date_fields_def midnight_def days_in_month_simps
            MINYEAR_def MAXYEAR_def dd_def)
    have mm: "midnight y' m' d' = midnight (year (midnight y' m' d')) (month (midnight y' m' d'))
        (day (midnight y' m' d'))" for y' m' d'
      by (simp add: midnight_def)
    have ws: "add_years_months (midnight (year d + 12) 2 dd) 0 (- 6)
        = Inr (midnight (year d + 11) 8 dd)"
      using vd(1) assms(2) by (simp add: add_years_months_minus6[OF v1 mm] e) (simp add: midnight_def)
    have fees: "calculate_maintenance_fees g =
       Inr \<lparr>year_3_5 = window_of (milestone 3 d), year_7_5 = window_of (milestone 7 d),
             year_11_5 = window_of (milestone 11 d)\<rparr>"
      using assms(2) by (simp add: maintenance_fees_eq[OF assms(1)])
    have direct: "add_years_months d 11 0 = Inr (d\<lparr>year := year d + 11, day := 31\<rparr>)"
      using vd(1) assms(2) a
      by (simp add: add_years_months_zero_months[OF v(1)] days_in_month_simps)
    have neq: "midnight (year d + 11) 8 dd \<noteq> d\<lparr>year := year d + 11, day := 31\<rparr>"
    proof
      assume "midnight (year d + 11) 8 dd = d\<lparr>year := year d + 11, day := 31\<rparr>"
      then have "day (midnight (year d + 11) 8 dd) = day (d\<lparr>year := year d + 11, day := 31\<rparr>)"
        by simp
      then show False by (simp add: midnight_def dd_def split: if_splits)
    qed
    have lt: "day (midnight (year d + 11) 8 dd) < day d"
      using a by (simp add: midnight_def dd_def)
    have wst: "window_start (year_11_5
          \<lparr>year_3_5 = window_of (milestone 3 d), year_7_5 = window_of (milestone 7 d),
           year_11_5 = window_of (milestone 11 d)\<rparr>) = strftime (midnight (year d + 11) 8 dd)"
      by (simp add: window_of_def m e)
    from due ws fees wst lt direct neq
    show "\<exists>due ws direct fees. add_years_months d 11 6 = Inr due
                \<and> add_years_months due 0 (- 6) = Inr ws
                \<and> calculate_maintenance_fees g = Inr fees
                \<and> window_start (year_11_5 fees) = strftime ws
                \<and> day ws < day d
                \<and> add_years_months d 11 0 = Inr direct \<and> ws \<noteq> direct"
      unfolding m by blast
  }
qed

lemma strptime_2020_02_29: "strptime ''2020-02-29'' = Inr (midnight 2020 2 29)"
  by code_simp

lemma strptime_2020_08_31: "strptime ''2020-08-31'' = Inr (midnight 2020 8 31)"
  by code_simp

theorem C10_window_start_from_clamped_due_witness:
  "(\<exists>due ws back. add_years_months (midnight 2020 2 29) 11 6 = Inr due
        \<and> add_years_months due 0 (- 6) = Inr ws
        \<and> add_years_months ws 0 6 = Inr back \<and> back \<noteq> due)
   \<and> (\<exists>due ws direct fees. add_years_months (midnight 2020 8 31) 11 6 = Inr due
        \<and> add_years_months due 0 (- 6) = Inr ws
        \<and> calculate_maintenance_fees ''2020-08-31'' = Inr fees
        \<and> window_start (year_11_5 fees) = strftime ws
        \<and> day ws < 31
        \<and> add_years_months (midnight 2020 8 31) 11 0 = Inr direct \<and> ws \<noteq> direct)"
proof -
  have a: "year (midnight 2020 2 29) \<le> 9987" "month (midnight 2020 2 29) = 2"
    "day (midnight 2020 2 29) = 29"
    and b: "year (midnight 2020 8 31) \<le> 9987" "month (midnight 2020 8 31) = 8"
    "day (midnight 2020 8 31) = 31"
    by (simp_all add: midnight_def)
  from C10_window_start_from_clamped_due[OF strptime_2020_02_29 a(1)] a(2,3)
  have 1: "\<exists>due ws back. add_years_months (midnight 2020 2 29) 11 6 = Inr due
        \<and> add_years_months due 0 (- 6) = Inr ws
        \<and> add_years_months ws 0 6 = Inr back \<and> back \<noteq> due"
    by blast
  from C10_window_start_from_clamped_due[OF strptime_2020_08_31 b(1)] b(2,3)
  have "\<exists>due ws direct fees. add_years_months (midnight 2020 8 31) 11 6 = Inr due
        \<and> add_years_months due 0 (- 6) = Inr ws
        \<and> calculate_maintenance_fees ''2020-08-31'' = Inr fees
        \<and> window_start (year_11_5 fees) = strftime ws
        \<and> day ws < day (midnight 2020 8 31)
        \<and> add_years_months (midnight 2020 8 31) 11 0 = Inr direct \<and> ws \<noteq> direct"
    by blast
  then have 2: "\<exists>due ws direct fees. add_years_months (midnight 2020 8 31) 11 6 = Inr due
        \<and> add_years_months due 0 (- 6) = Inr ws
        \<and> calculate_maintenance_fees ''2020-08-31'' = Inr fees
        \<and> window_start (year_11_5 fees) = strftime ws
        \<and> day ws < 31
        \<and> add_years_months (midnight 2020 8 31) 11 0 = Inr direct \<and> ws \<noteq> direct"
    unfolding b(3) .
  from 1 2 show ?thesis by (rule conjI)
qed

section \<open>The clock\<close>

text \<open>
  Claim C6. Every result of \<^const>\<open>calculate_expiry\<close>, and every result of
  \<^const>\<open>calculate_design_patent_expiry\<close>, has an instant \<open>fd\<close>, a valid date at
  midnight, that \<^const>\<open>calculated_expiry\<close> prints; the string reads back as no other
  instant, and it does read back as \<open>fd\<close> when the year has four digits.
  \<^const>\<open>is_active\<close> holds iff \<open>now\<close> is strictly before \<open>fd\<close>; when \<open>now\<close> is exactly
  that midnight the patent is inactive.
\<close>

theorem C6_is_active_strict:
  "(calculate_expiry f pta pte td now = Inr r \<longrightarrow>
      (\<exists>fd. valid_date fd \<and> fd = midnight (year fd) (month fd) (day fd)
          \<and> calculated_expiry r = strftime fd
          \<and> (\<forall>x. strptime (calculated_expiry r) = Inr x \<longrightarrow> x = fd)
          \<and> (1000 \<le> year fd \<longrightarrow> strptime (calculated_expiry r) = Inr fd)
          \<and> (is_active r \<longleftrightarrow> dt_less now fd)
          \<and> (now = fd \<longrightarrow> \<not> is_active r)))
   \<and> (calculate_design_patent_expiry g f' now = Inr r' \<longrightarrow>
      (\<exists>fd. valid_date fd \<and> fd = midnight (year fd) (month fd) (day fd)
          \<and> calculated_expiry r' = strftime fd
          \<and> (\<forall>x. strptime (calculated_expiry r') = Inr x \<longrightarrow> x = fd)
          \<and> (1000 \<le> year fd \<longrightarrow> strptime (calculated_expiry r') = Inr fd)
          \<and> (is_active r' \<longleftrightarrow> dt_less now fd)
          \<and> (now = fd \<longrightarrow> \<not> is_active r')))"
proof -
  have gen: "\<exists>fd. valid_date fd \<and> fd = midnight (year fd) (month fd) (day fd)
          \<and> calculated_expiry q = strftime fd
          \<and> (\<forall>x. strptime (calculated_expiry q) = Inr x \<longrightarrow> x = fd)
          \<and> (1000 \<le> year fd \<longrightarrow> strptime (calculated_expiry q) = Inr fd)
          \<and> (is_active q \<longleftrightarrow> dt_less now fd)
          \<and> (now = fd \<longrightarrow> \<not> is_active q)"
    if fd: "valid_date fd" "fd = midnight (year fd) (month fd) (day fd)"
      "calculated_expiry q = strftime fd" "is_active q = dt_less now fd" for q fd
  proof -
    have u: "\<forall>x. strptime (calculated_expiry q) = Inr x \<longrightarrow> x = fd"
      unfolding fd(3) using strptime_strftime_unique[OF fd(1,2)] by blast
    have e: "1000 \<le> year fd \<longrightarrow> strptime (calculated_expiry q) = Inr fd"
      unfolding fd(3) using strptime_strftime[OF fd(1,2)] by blast
    have n: "now = fd \<longrightarrow> \<not> is_active q"
      unfolding fd(4) using dt_less_irrefl[of fd] by blast
    from fd(1,2,3) u e fd(4) n show ?thesis by blast
  qed
  show ?thesis
  proof (intro conjI impI)
    assume "calculate_expiry f pta pte td now = Inr r"
    then obtain fd where "valid_date fd" "fd = midnight (year fd) (month fd) (day fd)"
      "calculated_expiry r = strftime fd" "is_active r = dt_less now fd"
      by (elim calculate_expiry_final)
    then show "\<exists>fd. valid_date fd \<and> fd = midnight (year fd) (month fd) (day fd)
          \<and> calculated_expiry r = strftime fd
          \<and> (\<forall>x. strptime (calculated_expiry r) = Inr x \<longrightarrow> x = fd)
          \<and> (1000 \<le> year fd \<longrightarrow> strptime (calculated_expiry r) = Inr fd)
          \<and> (is_active r \<longleftrightarrow> dt_less now fd)
          \<and> (now = fd \<longrightarrow> \<not> is_active r)"
      by (rule gen)
  next
    assume "calculate_design_patent_expiry g f' now = Inr r'"
    then obtain fd where "valid_date fd" "fd = midnight (year fd) (month fd) (day fd)"
      "calculated_expiry r' = strftime fd" "is_active r' = dt_less now fd"
      by (elim design_expiry_final)
    then show "\<exists>fd. valid_date fd \<and> fd = midnight (year fd) (month fd) (day fd)
          \<and> calculated_expiry r' = strftime fd
          \<and> (\<forall>x. strptime (calculated_expiry r') = Inr x \<longrightarrow> x = fd)
          \<and> (1000 \<le> year fd \<longrightarrow> strptime (calculated_expiry r') = Inr fd)
          \<and> (is_active r' \<longleftrightarrow> dt_less now fd)
          \<and> (now = fd \<longrightarrow> \<not> is_active r')"
      by (rule gen)
  qed
qed

lemma plus_0_days: "add_timedelta_days (midnight 2020 1 1) (0 + 0) = Inr (midnight 2020 1 1)"
  by code_simp

lemma expiry_2000_01_01:
  "calculate_expiry ''2000-01-01'' 0 0 None now =
     Inr \<lparr>expiry = ''2020-01-01'', reason = ''20 years from filing'',
           is_active = dt_less now (midnight 2020 1 1), baseline_expiry = ''2020-01-01'',
           pta_days = 0, pte_days = 0, calculated_expiry = ''2020-01-01''\<rparr>"
  by (simp add: calculate_expiry_eq[OF strptime_2000_01_01 baseline_2000_01_01 plus_0_days]
        strftime_2020_01_01)

lemma strptime_2031_02_28: "strptime ''2031-02-28'' = Inr (midnight 2031 2 28)"
  by code_simp

lemma design_2016_02_29:
  "calculate_design_patent_expiry ''2016-02-29'' ''2015-05-13'' now =
     Inr \<lparr>expiry = ''2031-02-28'', reason = ''15 years from grant date'',
           is_active = dt_less now (midnight 2031 2 28), baseline_expiry = ''2031-02-28'',
           pta_days = 0, pte_days = 0, calculated_expiry = ''2031-02-28''\<rparr>"
proof -
  have d: "days_in_month 2031 2 = 28" by code_simp
  have b: "midnight 2016 2 29\<lparr>year := 2031, day := 28\<rparr> = midnight 2031 2 28"
    by (simp add: midnight_def)
  have y: "year (midnight 2016 2 29) = 2016" "month (midnight 2016 2 29) = 2"
    "day (midnight 2016 2 29) = 29" "year (midnight 2015 5 13) = 2015"
    "month (midnight 2015 5 13) = 5" "day (midnight 2015 5 13) = 13"
    by (simp_all add: midnight_def)
  show ?thesis
    by (simp add: design_expiry_eq[OF strptime_2016_02_29 strptime_cutoff] y d b
          strftime_2031_02_28 Let_def)
qed

text \<open>
  Both calculators at the very midnight of the expiry date: a utility patent filed on
  2000-01-01 and evaluated at 2020-01-01 00:00, and a design patent granted on 2016-02-29
  and evaluated at 2031-02-28 00:00, are inactive.
\<close>

theorem C6_is_active_strict_witness:
  "(\<exists>r. calculate_expiry ''2000-01-01'' 0 0 None (midnight 2020 1 1) = Inr r
       \<and> calculated_expiry r = ''2020-01-01''
       \<and> strptime (calculated_expiry r) = Inr (midnight 2020 1 1)
       \<and> \<not> is_active r)
   \<and> (\<exists>r. calculate_design_patent_expiry ''2016-02-29'' ''2015-05-13'' (midnight 2031 2 28)
            = Inr r
       \<and> calculated_expiry r = ''2031-02-28''
       \<and> strptime (calculated_expiry r) = Inr (midnight 2031 2 28)
       \<and> \<not> is_active r)"
proof -
  let ?u = "\<lparr>expiry = ''2020-01-01'', reason = ''20 years from filing'',
           is_active = dt_less (midnight 2020 1 1) (midnight 2020 1 1),
           baseline_expiry = ''2020-01-01'',
           pta_days = 0, pte_days = 0, calculated_expiry = ''2020-01-01''\<rparr>"
  let ?d = "\<lparr>expiry = ''2031-02-28'', reason = ''15 years from grant date'',
           is_active = dt_less (midnight 2031 2 28) (midnight 2031 2 28),
           baseline_expiry = ''2031-02-28'',
           pta_days = 0, pte_days = 0, calculated_expiry = ''2031-02-28''\<rparr>"
  have u: "calculate_expiry ''2000-01-01'' 0 0 None (midnight 2020 1 1) = Inr ?u"
    by (rule expiry_2000_01_01)
  have d: "calculate_design_patent_expiry ''2016-02-29'' ''2015-05-13'' (midnight 2031 2 28)
      = Inr ?d"
    by (rule design_2016_02_29)
  have su: "strptime (calculated_expiry ?u) = Inr (midnight 2020 1 1)"
    using strptime_2020_01_01 by simp
  have sd: "strptime (calculated_expiry ?d) = Inr (midnight 2031 2 28)"
    using strptime_2031_02_28 by simp
  from C6_is_active_strict[of "''2000-01-01''" 0 0 None "midnight 2020 1 1" ?u
      "''2016-02-29''" "''2015-05-13''" ?d, THEN conjunct1, rule_format, OF u]
  obtain fd where "\<forall>x. strptime (calculated_expiry ?u) = Inr x \<longrightarrow> x = fd"
    and "midnight 2020 1 1 = fd \<longrightarrow> \<not> is_active ?u"
    by blast
  with su have 1: "\<not> is_active ?u" by blast
  from C6_is_active_strict[of "''2000-01-01''" 0 0 None "midnight 2031 2 28" ?u
      "''2016-02-29''" "''2015-05-13''" ?d, THEN conjunct2, rule_format, OF d]
  obtain fd' where "\<forall>x. strptime (calculated_expiry ?d) = Inr x \<longrightarrow> x = fd'"
    and "midnight 2031 2 28 = fd' \<longrightarrow> \<not> is_active ?d"
    by blast
  with sd have 2: "\<not> is_active ?d" by blast
  have a: "\<exists>r. calculate_expiry ''2000-01-01'' 0 0 None (midnight 2020 1 1) = Inr r
       \<and> calculated_expiry r = ''2020-01-01''
       \<and> strptime (calculated_expiry r) = Inr (midnight 2020 1 1)
       \<and> \<not> is_active r"
    using u su 1 by (intro exI[of _ ?u] conjI) simp_all
  have b: "\<exists>r. calculate_design_patent_expiry ''2016-02-29'' ''2015-05-13'' (midnight 2031 2 28)
            = Inr r
       \<and> calculated_expiry r = ''2031-02-28''
       \<and> strptime (calculated_expiry r) = Inr (midnight 2031 2 28)
       \<and> \<not> is_active r"
    using d sd 2 by (intro exI[of _ ?d] conjI) simp_all
  from a b show ?thesis by (rule conjI)
qed

lemma lex_less_le_trans:
  "length xs = length ys \<Longrightarrow> length ys = length zs \<Longrightarrow>
   \<not> lex_less ys xs \<Longrightarrow> lex_less ys zs \<Longrightarrow> lex_less xs zs"
  by (induction xs ys zs rule: list_induct3) auto

lemma dt_le_less_trans:
  assumes "\<not> dt_less b a" "dt_less b c"
  shows "dt_less a c"
proof -
  have "length (dt_fields a) = length (dt_fields b)"
    "length (dt_fields b) = length (dt_fields c)"
    by (simp_all add: dt_fields_def)
  from lex_less_le_trans[OF this] assms show ?thesis unfolding dt_less_def by blast
qed

text \<open>
  Claim C9. The calculators are functions of their arguments and of the instant \<open>now\<close>;
  \<^const>\<open>calculate_maintenance_fees\<close> does not read the clock at all. For the two expiry
  calculators, two instants give the same outcome (the same error, or results equal in
  every field) once \<^const>\<open>is_active\<close> is blanked; and the flag only ever flips from
  active to inactive as the clock advances.
\<close>

theorem C9_only_is_active_depends_on_clock:
  "map_sum id (\<lambda>r. r\<lparr>is_active := False\<rparr>) (calculate_expiry f pta pte td now1)
     = map_sum id (\<lambda>r. r\<lparr>is_active := False\<rparr>) (calculate_expiry f pta pte td now2)
   \<and> map_sum id (\<lambda>r. r\<lparr>is_active := False\<rparr>) (calculate_design_patent_expiry g f' now1)
     = map_sum id (\<lambda>r. r\<lparr>is_active := False\<rparr>) (calculate_design_patent_expiry g f' now2)
   \<and> (\<forall>r1 r2. (calculate_expiry f pta pte td now1 = Inr r1
                  \<and> calculate_expiry f pta pte td now2 = Inr r2
                \<or> calculate_design_patent_expiry g f' now1 = Inr r1
                  \<and> calculate_design_patent_expiry g f' now2 = Inr r2)
               \<and> \<not> dt_less now2 now1 \<and> is_active r2 \<longrightarrow> is_active r1)"
proof (intro conjI allI impI)
  show "map_sum id (\<lambda>r. r\<lparr>is_active := False\<rparr>) (calculate_expiry f pta pte td now1)
     = map_sum id (\<lambda>r. r\<lparr>is_active := False\<rparr>) (calculate_expiry f pta pte td now2)"
    by (auto simp: calculate_expiry_def Let_def split: sum.splits option.splits)
  show "map_sum id (\<lambda>r. r\<lparr>is_active := False\<rparr>) (calculate_design_patent_expiry g f' now1)
     = map_sum id (\<lambda>r. r\<lparr>is_active := False\<rparr>) (calculate_design_patent_expiry g f' now2)"
    by (auto simp: calculate_design_patent_expiry_def Let_def split: sum.splits)
next
  fix r1 r2
  assume a: "(calculate_expiry f pta pte td now1 = Inr r1
                  \<and> calculate_expiry f pta pte td now2 = Inr r2
                \<or> calculate_design_patent_expiry g f' now1 = Inr r1
                  \<and> calculate_design_patent_expiry g f' now2 = Inr r2)
               \<and> \<not> dt_less now2 now1 \<and> is_active r2"
  then have le: "\<not> dt_less now2 now1" and act: "is_active r2" by simp_all
  from a have "\<exists>fd. is_active r1 = dt_less now1 fd \<and> is_active r2 = dt_less now2 fd"
  proof (elim conjE disjE)
    assume "calculate_expiry f pta pte td now1 = Inr r1"
      "calculate_expiry f pta pte td now2 = Inr r2"
    then show ?thesis
      by (auto simp: calculate_expiry_def Let_def split: sum.splits option.splits if_splits)
  next
    assume "calculate_design_patent_expiry g f' now1 = Inr r1"
      "calculate_design_patent_expiry g f' now2 = Inr r2"
    then show ?thesis
      by (auto simp: calculate_design_patent_expiry_def Let_def split: sum.splits)
  qed
  then obtain fd where "is_active r1 = dt_less now1 fd" "is_active r2 = dt_less now2 fd"
    by blast
  with act dt_le_less_trans[OF le] show "is_active r1" by simp
qed

theorem C9_only_is_active_depends_on_clock_witness:
  "map_sum id (\<lambda>r. r\<lparr>is_active := False\<rparr>)
       (calculate_expiry ''2000-01-01'' 0 0 None (midnight 2019 12 31))
     = map_sum id (\<lambda>r. r\<lparr>is_active := False\<rparr>)
       (calculate_expiry ''2000-01-01'' 0 0 None (midnight 2020 1 1))
   \<and> calculate_expiry ''2000-01-01'' 0 0 None (midnight 2019 12 31)
     \<noteq> calculate_expiry ''2000-01-01'' 0 0 None (midnight 2020 1 1)"
proof -
  have "dt_less (midnight 2019 12 31) (midnight 2020 1 1)"
    by (simp add: dt_less_def dt_fields_def midnight_def)
  then have "calculate_expiry ''2000-01-01'' 0 0 None (midnight 2019 12 31)
     \<noteq> calculate_expiry ''2000-01-01'' 0 0 None (midnight 2020 1 1)"
    by (simp add: expiry_2000_01_01 dt_less_irrefl)
  with C9_only_is_active_depends_on_clock[of "''2000-01-01''" 0 0 None "midnight 2019 12 31"
      "midnight 2020 1 1"]
  show ?thesis by blast
qed

section \<open>One clamping rule\<close>

text \<open>
  Claim C7. For every valid date \<open>d\<close> and every year count \<open>y\<close> (of either sign), the
  inline \<^const>\<open>add_years_months\<close> with no months and \<^verbatim>\<open>d + relativedelta(years=y)\<close>
  give the same outcome: the same clamped date, or the same error in both when the year
  leaves 1..9999 (\<^verbatim>\<open>ValueError\<close>, or \<^verbatim>\<open>OverflowError\<close> for a year that does not fit a
  C integer).
\<close>

theorem C7_same_clamping_rule:
  assumes "valid_date d"
  shows "add_years_months d y 0 = add_relativedelta_years d y"
  by (simp add: add_years_months_replace[OF assms] add_relativedelta_years_replace[OF assms])

theorem C7_same_clamping_rule_witness:
  "valid_date (midnight 2024 2 29)
   \<and> add_years_months (midnight 2024 2 29) 3 0 = Inr (midnight 2027 2 28)
   \<and> add_relativedelta_years (midnight 2024 2 29) 3 = Inr (midnight 2027 2 28)"
proof -
  have v: "valid_date (midnight 2024 2 29)" by code_simp
  have a: "add_years_months (midnight 2024 2 29) 3 0 = Inr (midnight 2027 2 28)" by code_simp
  show ?thesis using C7_same_clamping_rule[OF v, of 3] v a by simp
qed

section \<open>Failure and success\<close>

lemma calculate_expiry_returns:
  "(\<exists>r. calculate_expiry f pta pte td now = Inr r) \<longleftrightarrow>
     (\<exists>d. strptime f = Inr d \<and> year d \<le> 9979
        \<and> 0 < toordinal (d\<lparr>year := year d + 20,
                              day := min (day d) (days_in_month (year d + 20) (month d))\<rparr>)
                + (pta + pte)
        \<and> toordinal (d\<lparr>year := year d + 20,
                          day := min (day d) (days_in_month (year d + 20) (month d))\<rparr>)
                + (pta + pte) \<le> MAXORDINAL
        \<and> \<bar>pta\<bar> < 10 ^ MAX_STR_DIGITS \<and> \<bar>pte\<bar> < 10 ^ MAX_STR_DIGITS
        \<and> (td = None \<or> td = Some [] \<or> (\<exists>s t. td = Some s \<and> strptime s = Inr t)))"
proof (cases "strptime f")
  case (Inl e)
  then show ?thesis by (simp add: calculate_expiry_def)
next
  case (Inr d)
  note v = strptime_Inr(1)[OF Inr]
  note vd = valid_dateD[OF v]
  define b where "b = d\<lparr>year := year d + 20,
                         day := min (day d) (days_in_month (year d + 20) (month d))\<rparr>"
  show ?thesis
  proof (cases "year d \<le> 9979")
    case False
    then show ?thesis
      using calculate_expiry_year_overflow[OF Inr, of pta pte td now] by (simp add: Inr)
  next
    case True
    then have yr: "1 \<le> year d + 20" "year d + 20 \<le> 9999" using vd(1) by simp_all
    then have base: "add_relativedelta_years d 20 = Inr b"
      by (simp add: add_relativedelta_years_eq[OF v] b_def)
    have vb: "valid_date b" unfolding b_def by (rule valid_date_clamped[OF v yr])
    note ret = add_timedelta_days_returns[OF vb, of "pta + pte"]
    show ?thesis
    proof (cases "add_timedelta_days b (pta + pte)")
      case (Inl e)
      with ret have "\<not> (0 < toordinal b + (pta + pte) \<and> toordinal b + (pta + pte) \<le> MAXORDINAL)"
        by auto
      with Inl show ?thesis
        by (auto simp: calculate_expiry_def Inr base b_def[symmetric])
    next
      case a: (Inr a)
      with ret have rng: "0 < toordinal b + (pta + pte)" "toordinal b + (pta + pte) \<le> MAXORDINAL"
        by auto
      have "(\<exists>r. calculate_expiry f pta pte td now = Inr r) \<longleftrightarrow>
            \<bar>pta\<bar> < 10 ^ MAX_STR_DIGITS \<and> \<bar>pte\<bar> < 10 ^ MAX_STR_DIGITS
            \<and> (td = None \<or> td = Some [] \<or> (\<exists>s t. td = Some s \<and> strptime s = Inr t))"
        unfolding calculate_expiry_eq[OF Inr base a]
        using strptime_Nil
        by (auto simp: Let_def split: option.splits sum.splits)
      with rng True show ?thesis by (simp add: Inr b_def[symmetric])
    qed
  qed
qed


lemma calculate_expiry_empty_td:
  "calculate_expiry f pta pte (Some []) now = calculate_expiry f pta pte None now"
  by (simp add: calculate_expiry_def Let_def cong: sum.case_cong)

lemma maintenance_fees_returns:
  "(\<exists>r. calculate_maintenance_fees g = Inr r) \<longleftrightarrow>
     (\<exists>gd. strptime g = Inr gd \<and> year gd \<le> 9987)"
proof (cases "strptime g")
  case (Inl e)
  then show ?thesis by (simp add: calculate_maintenance_fees_def)
next
  case (Inr gd)
  then show ?thesis by (simp add: maintenance_fees_eq[OF Inr])
qed

lemma design_expiry_returns:
  "(\<exists>r. calculate_design_patent_expiry g f now = Inr r) \<longleftrightarrow>
     (\<exists>gd fd. strptime g = Inr gd \<and> strptime f = Inr fd
        \<and> year gd + (if 2015 < year fd \<or> (year fd = 2015 \<and> (5 < month fd
                          \<or> (month fd = 5 \<and> 13 \<le> day fd))) then 15 else 14) \<le> 9999)"
proof (cases "strptime g")
  case (Inl e)
  then show ?thesis by (simp add: calculate_design_patent_expiry_def)
next
  case g: (Inr gd)
  show ?thesis
  proof (cases "strptime f")
    case (Inl e)
    then show ?thesis by (simp add: calculate_design_patent_expiry_def g)
  next
    case f: (Inr fd)
    show ?thesis by (simp add: design_expiry_eq[OF g f] g f Let_def)
  qed
qed

text \<open>
  Claim C8, as the code has it. A calculator returns a result exactly when every date
  string it reads is accepted by \<^const>\<open>strptime\<close>, every date it computes stays in
  the years 1..9999, and every day count it prints has at most 4300 digits: a grant year
  up to 9987 for the fee schedule, a grant year plus the term up to 9999 for a design
  patent, a filing year up to 9979, an adjusted date within the ordinals of
  \<^verbatim>\<open>datetime\<close> and printable day counts for \<^const>\<open>calculate_expiry\<close>, whose
  terminal-disclaimer string is read only when it is neither \<^verbatim>\<open>None\<close> nor empty. A
  required date string that does not parse makes the call fail with \<^verbatim>\<open>ValueError\<close>.
  The outcome is a function of the arguments.
\<close>

theorem C8_failure_and_success:
  "((\<exists>r. calculate_maintenance_fees g = Inr r) \<longleftrightarrow>
      (\<exists>gd. strptime g = Inr gd \<and> year gd \<le> 9987))
   \<and> ((\<exists>r. calculate_design_patent_expiry g f now = Inr r) \<longleftrightarrow>
      (\<exists>gd fd. strptime g = Inr gd \<and> strptime f = Inr fd
         \<and> year gd + (if 2015 < year fd \<or> (year fd = 2015 \<and> (5 < month fd
                           \<or> (month fd = 5 \<and> 13 \<le> day fd))) then 15 else 14) \<le> 9999))
   \<and> ((\<exists>r. calculate_expiry f pta pte td now = Inr r) \<longleftrightarrow>
      (\<exists>d. strptime f = Inr d \<and> year d \<le> 9979
         \<and> 0 < toordinal (d\<lparr>year := year d + 20,
                               day := min (day d) (days_in_month (year d + 20) (month d))\<rparr>)
                 + (pta + pte)
         \<and> toordinal (d\<lparr>year := year d + 20,
                           day := min (day d) (days_in_month (year d + 20) (month d))\<rparr>)
                 + (pta + pte) \<le> MAXORDINAL
         \<and> \<bar>pta\<bar> < 10 ^ MAX_STR_DIGITS \<and> \<bar>pte\<bar> < 10 ^ MAX_STR_DIGITS
         \<and> (td = None \<or> td = Some [] \<or> (\<exists>s t. td = Some s \<and> strptime s = Inr t))))
   \<and> (strptime g = Inl ValueError \<longrightarrow> calculate_maintenance_fees g = Inl ValueError)
   \<and> (strptime g = Inl ValueError \<or> strptime f = Inl ValueError \<longrightarrow>
        calculate_design_patent_expiry g f now = Inl ValueError)
   \<and> (strptime f = Inl ValueError \<longrightarrow> calculate_expiry f pta pte td now = Inl ValueError)
   \<and> calculate_expiry f pta pte (Some []) now = calculate_expiry f pta pte None now"
proof (intro conjI impI)
  show "(\<exists>r. calculate_maintenance_fees g = Inr r) \<longleftrightarrow>
      (\<exists>gd. strptime g = Inr gd \<and> year gd \<le> 9987)"
    by (rule maintenance_fees_returns)
  show "(\<exists>r. calculate_design_patent_expiry g f now = Inr r) \<longleftrightarrow>
      (\<exists>gd fd. strptime g = Inr gd \<and> strptime f = Inr fd
         \<and> year gd + (if 2015 < year fd \<or> (year fd = 2015 \<and> (5 < month fd
                           \<or> (month fd = 5 \<and> 13 \<le> day fd))) then 15 else 14) \<le> 9999)"
    by (rule design_expiry_returns)
  show "(\<exists>r. calculate_expiry f pta pte td now = Inr r) \<longleftrightarrow>
      (\<exists>d. strptime f = Inr d \<and> year d \<le> 9979
         \<and> 0 < toordinal (d\<lparr>year := year d + 20,
                               day := min (day d) (days_in_month (year d + 20) (month d))\<rparr>)
                 + (pta + pte)
         \<and> toordinal (d\<lparr>year := year d + 20,
                           day := min (day d) (days_in_month (year d + 20) (month d))\<rparr>)
                 + (pta + pte) \<le> MAXORDINAL
         \<and> \<bar>pta\<bar> < 10 ^ MAX_STR_DIGITS \<and> \<bar>pte\<bar> < 10 ^ MAX_STR_DIGITS
         \<and> (td = None \<or> td = Some [] \<or> (\<exists>s t. td = Some s \<and> strptime s = Inr t)))"
    by (rule calculate_expiry_returns)
  show "calculate_maintenance_fees g = Inl ValueError" if "strptime g = Inl ValueError"
    using that by (simp add: calculate_maintenance_fees_def)
  show "calculate_design_patent_expiry g f now = Inl ValueError"
    if "strptime g = Inl ValueError \<or> strptime f = Inl ValueError"
    using that strptime_Inl[of g]
    by (auto simp: calculate_design_patent_expiry_def split: sum.splits)
  show "calculate_expiry f pta pte td now = Inl ValueError" if "strptime f = Inl ValueError"
    using that by (simp add: calculate_expiry_def)
  show "calculate_expiry f pta pte (Some []) now = calculate_expiry f pta pte None now"
    by (rule calculate_expiry_empty_td)
qed

lemma strptime_2019_02_30: "strptime ''2019-02-30'' = Inl ValueError"
  by code_simp

lemma strptime_lenient: "strptime ''2019-8-31'' = Inr (midnight 2019 8 31)"
  by code_simp

theorem C8_failure_and_success_witness:
  "(\<exists>r. calculate_maintenance_fees ''2019-08-31'' = Inr r)
   \<and> calculate_maintenance_fees ''2019-02-30'' = Inl ValueError
   \<and> calculate_design_patent_expiry ''2019-02-30'' ''2019-02-30'' (midnight 2026 11 4)
       = Inl ValueError
   \<and> calculate_expiry ''2019-02-30'' 0 0 None (midnight 2026 11 4) = Inl ValueError
   \<and> \<not> (\<exists>r. calculate_expiry ''2000-01-01'' 0 0 (Some ''2019-02-30'') (midnight 2026 11 4)
             = Inr r)"
proof -
  have y: "year (midnight 2019 8 31) \<le> 9987" by (simp add: midnight_def)
  note ok = C8_failure_and_success[of "''2019-08-31''" "''2000-01-01''" "midnight 2026 11 4"
      0 0 "Some ''2019-02-30''"]
  note bad = C8_failure_and_success[of "''2019-02-30''" "''2019-02-30''" "midnight 2026 11 4"
      0 0 None]
  from ok[THEN conjunct1] strptime_2019_08_31 y
  have 1: "\<exists>r. calculate_maintenance_fees ''2019-08-31'' = Inr r"
    by blast
  have "\<not> (\<exists>s t. Some ''2019-02-30'' = Some s \<and> strptime s = Inr t)"
    by (simp add: strptime_2019_02_30)
  with ok[THEN conjunct2, THEN conjunct2, THEN conjunct1]
  have 2: "\<not> (\<exists>r. calculate_expiry ''2000-01-01'' 0 0 (Some ''2019-02-30'')
               (midnight 2026 11 4) = Inr r)"
    by blast
  note f = bad[THEN conjunct2, THEN conjunct2, THEN conjunct2]
  from f[THEN conjunct1] strptime_2019_02_30
  have 3: "calculate_maintenance_fees ''2019-02-30'' = Inl ValueError" by blast
  from f[THEN conjunct2, THEN conjunct1] strptime_2019_02_30
  have 4: "calculate_design_patent_expiry ''2019-02-30'' ''2019-02-30'' (midnight 2026 11 4)
       = Inl ValueError" by blast
  from f[THEN conjunct2, THEN conjunct2, THEN conjunct1] strptime_2019_02_30
  have 5: "calculate_expiry ''2019-02-30'' 0 0 None (midnight 2026 11 4) = Inl ValueError"
    by blast
  from 1 3 4 5 2 show ?thesis by (intro conjI)
qed

lemma baseline_2020_01_01:
  "add_relativedelta_years (midnight 2020 1 1) 20 = Inr (midnight 2040 1 1)"
  by code_simp

lemma plus_3000000_days: "add_timedelta_days (midnight 2040 1 1) 3000000 = Inl OverflowError"
  by code_simp

text \<open>
  Claim C8 as stated fails three ways. With every date string valid, a day count that
  carries the adjusted date past 9999-12-31 makes \<^const>\<open>calculate_expiry\<close> fail with
  \<^verbatim>\<open>OverflowError\<close>; an empty terminal-disclaimer string is no date, yet the call
  returns; and \<^verbatim>\<open>2019-8-31\<close>, which is not of the form YYYY-MM-DD, is read as
  2019-08-31.
\<close>

theorem C8_counterexample:
  "strptime ''2020-01-01'' = Inr (midnight 2020 1 1)
   \<and> calculate_expiry ''2020-01-01'' 3000000 0 None (midnight 2026 11 4) = Inl OverflowError
   \<and> strptime [] = Inl ValueError
   \<and> calculate_expiry ''2000-01-01'' 0 0 (Some []) (midnight 2026 11 4)
       = Inr \<lparr>expiry = ''2020-01-01'', reason = ''20 years from filing'', is_active = False,
              baseline_expiry = ''2020-01-01'', pta_days = 0, pte_days = 0,
              calculated_expiry = ''2020-01-01''\<rparr>
   \<and> strptime ''2019-8-31'' = Inr (midnight 2019 8 31)
   \<and> calculate_maintenance_fees ''2019-8-31'' = calculate_maintenance_fees ''2019-08-31''
   \<and> \<not> isl (calculate_maintenance_fees ''2019-8-31'')"
proof -
  have 1: "calculate_expiry ''2020-01-01'' 3000000 0 None (midnight 2026 11 4)
      = Inl OverflowError"
    by (simp add: calculate_expiry_def strptime_2020_01_01 baseline_2020_01_01
          plus_3000000_days)
  have "\<not> dt_less (midnight 2026 11 4) (midnight 2020 1 1)"
    by (simp add: dt_less_def dt_fields_def midnight_def)
  moreover have "calculate_expiry ''2000-01-01'' 0 0 (Some []) (midnight 2026 11 4)
      = calculate_expiry ''2000-01-01'' 0 0 None (midnight 2026 11 4)"
    by (rule calculate_expiry_empty_td)
  ultimately have 2: "calculate_expiry ''2000-01-01'' 0 0 (Some []) (midnight 2026 11 4)
       = Inr \<lparr>expiry = ''2020-01-01'', reason = ''20 years from filing'', is_active = False,
              baseline_expiry = ''2020-01-01'', pta_days = 0, pte_days = 0,
              calculated_expiry = ''2020-01-01''\<rparr>"
    by (simp add: expiry_2000_01_01)
  have y: "year (midnight 2019 8 31) \<le> 9987" by (simp add: midnight_def)
  have 3: "calculate_maintenance_fees ''2019-8-31'' = calculate_maintenance_fees ''2019-08-31''"
    by (simp add: maintenance_fees_eq[OF strptime_lenient]
          maintenance_fees_eq[OF strptime_2019_08_31])
  have 4: "\<not> isl (calculate_maintenance_fees ''2019-8-31'')"
    using y by (simp add: maintenance_fees_eq[OF strptime_lenient])
  from strptime_2020_01_01 1 strptime_Nil 2 strptime_lenient 3 4 show ?thesis
    by (intro conjI)
qed

end
